theory Spec2Isabelle
  imports Complex_Main
begin

section \<open>Text\<close>

text \<open>
  A JavaScript string is a sequence of code units; it is modelled as a \<open>string\<close>, each
  \<open>char\<close> standing for one code unit below 256. The chunk handed to the decoder loop is
  the text that \<open>decoder.decode(value, { stream: true })\<close> returns for one read.
\<close>

definition newline :: char where
  "newline = CHR 0x0A"

text \<open>
  The characters \<open>String.prototype.trim\<close> strips, among the code units below 256: tab,
  line feed, vertical tab, form feed, carriage return, space and no-break space.
\<close>

definition is_ws :: "char \<Rightarrow> bool" where
  "is_ws c = (c \<in> {CHR 0x09, CHR 0x0A, CHR 0x0B, CHR 0x0C, CHR 0x0D, CHR 0x20, CHR 0xA0})"

definition trim :: "string \<Rightarrow> string" where
  "trim s = rev (dropWhile is_ws (rev (dropWhile is_ws s)))"

text \<open>\<open>s.startsWith(p)\<close>\<close>

fun startsWith :: "string \<Rightarrow> string \<Rightarrow> bool" where
  "startsWith [] s = True"
| "startsWith (p # ps) [] = False"
| "startsWith (p # ps) (c # cs) = (p = c \<and> startsWith ps cs)"

text \<open>
  \<open>s.split("\n")\<close>: the pieces between line feeds; a string with \<open>n\<close> line feeds has
  \<open>n + 1\<close> pieces, the last one being the text after the last line feed.
\<close>

fun split_nl :: "string \<Rightarrow> string list" where
  "split_nl [] = [[]]"
| "split_nl (c # cs) =
     (if c = newline then [] # split_nl cs
      else (case split_nl cs of
              [] \<Rightarrow> [[c]]
            | l # ls \<Rightarrow> (c # l) # ls))"

section \<open>Parsed JSON and the delta of a frame\<close>

text \<open>
  The values \<open>JSON.parse\<close> returns. An object is the list of its own properties, each key
  once. \<open>JSON.parse\<close> itself belongs to the platform: it is the parameter \<open>parse\<close> of the
  decoder, \<open>None\<close> when it throws a SyntaxError.
\<close>

datatype json =
    JNull
  | JBool bool
  | JNum rat
  | JStr string
  | JArr "json list"
  | JObj "(string \<times> json) list"

type_synonym parser = "string \<Rightarrow> json option"

text \<open>
  Reading a property. The outer \<open>option\<close> is \<open>None\<close> when the read throws a TypeError
  (the receiver is \<open>null\<close> or \<open>undefined\<close>); the inner one is \<open>None\<close> for \<open>undefined\<close>.
\<close>

text \<open>\<open>x.name\<close> for the names \<open>choices\<close>, \<open>delta\<close> and \<open>content\<close>, on a defined value.\<close>

fun get_prop :: "string \<Rightarrow> json \<Rightarrow> json option option" where
  "get_prop k JNull = None"
| "get_prop k (JObj ps) = Some (map_of ps k)"
| "get_prop k v = Some None"

text \<open>\<open>x[0]\<close> on a defined value: the first element of an array, the first code unit of a
  string, the property \<open>"0"\<close> of an object.\<close>

fun index0 :: "json \<Rightarrow> json option option" where
  "index0 JNull = None"
| "index0 (JArr xs) = Some (case xs of [] \<Rightarrow> None | x # _ \<Rightarrow> Some x)"
| "index0 (JStr s) = Some (case s of [] \<Rightarrow> None | c # _ \<Rightarrow> Some (JStr [c]))"
| "index0 (JObj ps) = Some (map_of ps ''0'')"
| "index0 v = Some None"

text \<open>\<open>x?.name\<close>: \<open>undefined\<close> when \<open>x\<close> is \<open>null\<close> or \<open>undefined\<close>, and then never throws.\<close>

fun opt_prop :: "string \<Rightarrow> json option \<Rightarrow> json option" where
  "opt_prop k None = None"
| "opt_prop k (Some JNull) = None"
| "opt_prop k (Some (JObj ps)) = map_of ps k"
| "opt_prop k (Some v) = None"

text \<open>Truthiness of a value: \<open>undefined\<close>, \<open>null\<close>, \<open>false\<close>, zero and the empty string are
  falsy.\<close>

fun truthy :: "json option \<Rightarrow> bool" where
  "truthy None = False"
| "truthy (Some JNull) = False"
| "truthy (Some (JBool b)) = b"
| "truthy (Some (JNum n)) = (n \<noteq> 0)"
| "truthy (Some (JStr s)) = (s \<noteq> [])"
| "truthy (Some v) = True"

text \<open>
  The body of the \<open>try\<close> block of \<open>streamChat\<close> (api.ts, lines 258-266), on the payload
  \<open>line.slice(6)\<close>:
  \<^verbatim>\<open>
    const json = JSON.parse(line.slice(6));
    const content = json.choices[0]?.delta?.content || "";
    if (content) { onChunk(content); }
  \<close>
  The result is the value passed to \<open>onChunk\<close>, or \<open>None\<close> when \<open>onChunk\<close> is not called:
  the parse or a property read threw (the \<open>catch\<close> logs and goes on), or the content is
  falsy.
\<close>

definition frame_delta :: "parser \<Rightarrow> string \<Rightarrow> json option" where
  "frame_delta parse payload =
     (case parse payload of
        None \<Rightarrow> None
      | Some json \<Rightarrow>
          (case get_prop ''choices'' json of
             None \<Rightarrow> None
           | Some None \<Rightarrow> None
           | Some (Some choices) \<Rightarrow>
               (case index0 choices of
                  None \<Rightarrow> None
                | Some first \<Rightarrow>
                    (let content = opt_prop ''content'' (opt_prop ''delta'' first)
                     in if truthy content then content else None))))"

section \<open>The frame decoder of \<open>streamChat\<close>\<close>

definition done_line :: string where
  "done_line = ''data: [DONE]''"

definition data_prefix :: string where
  "data_prefix = ''data: ''"

text \<open>
  The branch the body of \<open>for (const line of lines)\<close> takes (api.ts, lines 254-267):
  \<^verbatim>\<open>
    if (line.trim() === "") continue;
    if (line.trim() === "data: [DONE]") return;
    if (line.startsWith("data: ")) { try { ... line.slice(6) ... } catch (e) { ... } }
  \<close>
\<close>

datatype line_kind =
    Blank
  | Sentinel
  | DataFrame string
  | Other

definition classify :: "string \<Rightarrow> line_kind" where
  "classify line =
     (if trim line = [] then Blank
      else if trim line = done_line then Sentinel
      else if startsWith data_prefix line then DataFrame (drop 6 line)
      else Other)"

text \<open>
  The \<open>for\<close> loop over the complete lines of one read: the values passed to \<open>onChunk\<close>, in
  order, and whether the loop left \<open>streamChat\<close> by \<open>return\<close>.
\<close>

fun for_lines :: "parser \<Rightarrow> string list \<Rightarrow> json list \<times> bool" where
  "for_lines parse [] = ([], False)"
| "for_lines parse (line # rest) =
     (case classify line of
        Blank \<Rightarrow> for_lines parse rest
      | Sentinel \<Rightarrow> ([], True)
      | DataFrame payload \<Rightarrow>
          (case frame_delta parse payload of
             None \<Rightarrow> for_lines parse rest
           | Some content \<Rightarrow>
               (case for_lines parse rest of (ds, stop) \<Rightarrow> (content # ds, stop)))
      | Other \<Rightarrow> for_lines parse rest)"

text \<open>
  A thrown value, as the \<open>catch\<close> of \<open>handleSendMessage\<close> reads it: its \<open>message\<close>
  property, \<open>None\<close> when there is none.
\<close>

datatype thrown = Thrown "string option"

datatype outcome = Returned | Threw thrown

text \<open>How the reads of the response body end: \<open>done\<close>, or a rejected \<open>reader.read()\<close>.\<close>

datatype ending = EndOfStream | ReadFails thrown

text \<open>
  The \<open>while (true)\<close> loop (api.ts, lines 240-269), from the buffer and the chunks still to
  be read:
  \<^verbatim>\<open>
    const { done, value } = await reader.read();
    if (done) break;
    buffer += decoder.decode(value, { stream: true });
    const lines = buffer.split("\n");
    buffer = lines.pop() || "";
    for (const line of lines) { ... }
  \<close>
\<close>

fun read_loop :: "parser \<Rightarrow> string \<Rightarrow> string list \<Rightarrow> ending \<Rightarrow> json list \<times> outcome" where
  "read_loop parse buffer [] e =
     ([], case e of EndOfStream \<Rightarrow> Returned | ReadFails t \<Rightarrow> Threw t)"
| "read_loop parse buffer (chunk # rest) e =
     (let lines = split_nl (buffer @ chunk)
      in case for_lines parse (butlast lines) of
           (ds, True) \<Rightarrow> (ds, Returned)
         | (ds, False) \<Rightarrow>
             (case read_loop parse (last lines) rest e of (ds', r) \<Rightarrow> (ds @ ds', r)))"

section \<open>The data model (types.ts)\<close>

datatype role = User | Assistant | System

datatype attachment_type = Image | File

record Attachment =
  att_id :: string
  att_name :: string
  att_type :: attachment_type
  att_content :: string
  att_mimeType :: "string option"

text \<open>\<open>attachments\<close> is an optional property: \<open>None\<close> when the message has none.\<close>

record Message =
  role :: role
  content :: string
  attachments :: "Attachment list option"

record ChatSession =
  session_id :: string
  projectId :: "string option"
  title :: string
  messages :: "Message list"
  timestamp :: int

record ApiConfig =
  apiKey :: string
  model :: string

section \<open>\<open>streamChat\<close> (services/api.ts)\<close>

text \<open>
  What the service does with the request: \<open>fetch\<close> (or the reading of an error body)
  rejects, the response is not \<open>ok\<close> (with the decimal text of \<open>response.status\<close> and the
  \<open>errorMessage\<close> that lines 224-231 read from the error body), the response has no body,
  or it has a body that delivers chunks of text and then ends.
\<close>

datatype transport =
    FetchRejects thrown
  | NotOk string string
  | NoBody
  | Body "string list" ending

definition key_required :: string where
  "key_required = ''API key is required. Please set it in Settings.''"

text \<open>
  \<open>streamChat(messages, config, onChunk)\<close>: the values passed to \<open>onChunk\<close>, in order, and how
  the call ends. \<open>env_key\<close> is \<open>import.meta.env.VITE_OPENROUTER_API_KEY\<close>; \<open>service\<close> answers
  the request that lines 173-221 build from the messages and the configuration, and is
  consulted only once a key is present.
\<close>

definition streamChat ::
  "parser \<Rightarrow> string option \<Rightarrow> (Message list \<Rightarrow> ApiConfig \<Rightarrow> transport) \<Rightarrow>
   Message list \<Rightarrow> ApiConfig \<Rightarrow> json list \<times> outcome" where
  "streamChat parse env_key service msgs config =
     (let key = (if apiKey config \<noteq> [] then Some (apiKey config) else env_key)
      in if key = None \<or> key = Some []
         then ([], Threw (Thrown (Some key_required)))
         else (case service msgs config of
                 FetchRejects t \<Rightarrow> ([], Threw t)
               | NotOk status errorMessage \<Rightarrow>
                   ([], Threw (Thrown (Some (''API Error ('' @ status @ ''): '' @ errorMessage))))
               | NoBody \<Rightarrow> ([], Threw (Thrown (Some ''No response body'')))
               | Body chunks e \<Rightarrow> read_loop parse [] chunks e))"

section \<open>The conversation store (App.tsx)\<close>

text \<open>
  \<open>getSessionsForStorage\<close> (App.tsx, lines 77-85): every message keeps its attachments
  that are not images; a message without the property stays without it.
\<close>

definition getSessionsForStorage :: "ChatSession list \<Rightarrow> ChatSession list" where
  "getSessionsForStorage sessions =
     map (\<lambda>session. session\<lparr>messages :=
            map (\<lambda>msg. msg\<lparr>attachments :=
                   map_option (filter (\<lambda>att. att_type att \<noteq> Image)) (attachments msg)\<rparr>)
                (messages session)\<rparr>)
         sessions"

text \<open>
  The state of the \<open>App\<close> component that \<open>handleSendMessage\<close> reads and writes.
\<close>

record AppState =
  sessions :: "ChatSession list"
  currentSessionId :: "string option"
  loading :: bool
  apiConfig :: ApiConfig
  systemPrompt :: string

text \<open>
  The variables that the callbacks of one call of \<open>handleSendMessage\<close> close over.
\<close>

record exchange =
  sessionIdForRequest :: string
  updatedMessages :: "Message list"
  aiContent :: string
  lastUpdate :: int

definition new_chat_title :: string where
  "new_chat_title = ''New Chat''"

text \<open>
  Lines 178-189, 200 and 215: the call returns at once (\<open>None\<close>) when
  \<open>currentSessionId\<close> is \<open>null\<close> or empty, or when no rendered session has that id;
  otherwise it captures the session id and the messages of the rendered session followed
  by the new user message. \<open>rendered\<close> is the state of the render the handler belongs to.
\<close>

definition send_begin :: "AppState \<Rightarrow> string \<Rightarrow> Attachment list \<Rightarrow> exchange option" where
  "send_begin rendered text atts =
     (case currentSessionId rendered of
        None \<Rightarrow> None
      | Some cur \<Rightarrow>
          if cur = [] then None
          else (case find (\<lambda>s. session_id s = cur) (sessions rendered) of
                  None \<Rightarrow> None
                | Some session \<Rightarrow>
                    Some \<lparr>sessionIdForRequest = cur,
                          updatedMessages =
                            messages session
                              @ [\<lparr>role = User, content = text, attachments = Some atts\<rparr>],
                          aiContent = [],
                          lastUpdate = 0\<rparr>))"

text \<open>The updater of lines 191-195: the optimistic update, which also sets the title.\<close>

definition append_user :: "exchange \<Rightarrow> string \<Rightarrow> ChatSession list \<Rightarrow> ChatSession list" where
  "append_user ex text prev =
     map (\<lambda>s. if session_id s = sessionIdForRequest ex
              then s\<lparr>messages := updatedMessages ex,
                     title := (if length (messages s) = 0
                               then (if take 30 text \<noteq> [] then take 30 text else new_chat_title)
                               else title s)\<rparr>
              else s)
         prev"

definition placeholder :: Message where
  "placeholder = \<lparr>role = Assistant, content = [], attachments = None\<rparr>"

text \<open>The updater of lines 203-207: the empty assistant message.\<close>

definition add_placeholder :: "exchange \<Rightarrow> ChatSession list \<Rightarrow> ChatSession list" where
  "add_placeholder ex prev =
     map (\<lambda>s. if session_id s = sessionIdForRequest ex
              then s\<lparr>messages := updatedMessages ex @ [placeholder]\<rparr>
              else s)
         prev"

text \<open>
  The body of the updaters of lines 220-228 and 234-241, on the session of the request:
  \<^verbatim>\<open>
    const msgs = [...s.messages];
    if (msgs[msgs.length - 1].role === 'assistant') {
        msgs[msgs.length - 1] = { ...msgs[msgs.length - 1], content: aiContent };
    }
    return { ...s, messages: msgs };
  \<close>
  On an empty list \<open>msgs[-1]\<close> is \<open>undefined\<close> and reading its \<open>role\<close> throws.
\<close>

definition set_last_content :: "string \<Rightarrow> ChatSession \<Rightarrow> ChatSession option" where
  "set_last_content text s =
     (if messages s = [] then None
      else if role (last (messages s)) = Assistant
      then Some (s\<lparr>messages := butlast (messages s) @ [(last (messages s))\<lparr>content := text\<rparr>]\<rparr>)
      else Some s)"

text \<open>\<open>prev.map(f)\<close> for an \<open>f\<close> that may throw.\<close>

fun map_throwing :: "('a \<Rightarrow> 'a option) \<Rightarrow> 'a list \<Rightarrow> 'a list option" where
  "map_throwing f [] = Some []"
| "map_throwing f (x # xs) =
     (case f x of
        None \<Rightarrow> None
      | Some y \<Rightarrow> (case map_throwing f xs of None \<Rightarrow> None | Some ys \<Rightarrow> Some (y # ys)))"

definition merge_content :: "string \<Rightarrow> string \<Rightarrow> ChatSession list \<Rightarrow> ChatSession list option" where
  "merge_content request_id text prev =
     map_throwing (\<lambda>s. if session_id s \<noteq> request_id then Some s else set_last_content text s) prev"

text \<open>
  The updater of lines 247-257: the error message replaces a last message that is an
  empty assistant message, and is pushed after any other.
\<close>

definition merge_error :: "string \<Rightarrow> Message \<Rightarrow> ChatSession list \<Rightarrow> ChatSession list" where
  "merge_error request_id errorMsg prev =
     map (\<lambda>s. if session_id s \<noteq> request_id then s
              else if messages s \<noteq> [] \<and> role (last (messages s)) = Assistant
                      \<and> content (last (messages s)) = []
              then s\<lparr>messages := butlast (messages s) @ [errorMsg]\<rparr>
              else s\<lparr>messages := messages s @ [errorMsg]\<rparr>)
         prev"

section \<open>\<open>handleSendMessage\<close> (App.tsx)\<close>

text \<open>
  The state updaters run in order, each on the latest state. An updater that throws makes
  the render fail, which unmounts the component: the state is then \<open>None\<close> for good.
\<close>

definition setSessions ::
  "(ChatSession list \<Rightarrow> ChatSession list option) \<Rightarrow> AppState option \<Rightarrow> AppState option" where
  "setSessions updater st =
     (case st of
        None \<Rightarrow> None
      | Some a \<Rightarrow> (case updater (sessions a) of
                    None \<Rightarrow> None
                  | Some ss \<Rightarrow> Some (a\<lparr>sessions := ss\<rparr>)))"

definition setLoading :: "bool \<Rightarrow> AppState option \<Rightarrow> AppState option" where
  "setLoading b st = map_option (\<lambda>a. a\<lparr>loading := b\<rparr>) st"

text \<open>Lines 191-207: the two updates that start an exchange, and the loading flag.\<close>

definition start_exchange :: "exchange \<Rightarrow> string \<Rightarrow> AppState option \<Rightarrow> AppState option" where
  "start_exchange ex text st =
     setSessions (\<lambda>prev. Some (add_placeholder ex prev))
       (setLoading True
         (setSessions (\<lambda>prev. Some (append_user ex text prev)) st))"

text \<open>
  The callback given to \<open>streamChat\<close> (lines 216-231), with the reading \<open>now\<close> of
  \<open>Date.now()\<close>; \<open>interval\<close> is the constant 100 of line 219.
  \<^verbatim>\<open>
    aiContent += chunk;
    const now = Date.now();
    if (now - lastUpdate > 100) { setSessions(...); lastUpdate = now; }
  \<close>
\<close>

definition onChunk ::
  "int \<Rightarrow> int \<Rightarrow> string \<Rightarrow> exchange \<times> AppState option \<Rightarrow> exchange \<times> AppState option" where
  "onChunk interval now chunk x =
     (case x of (ex, st) \<Rightarrow>
        (let ex1 = ex\<lparr>aiContent := aiContent ex @ chunk\<rparr>
         in if now - lastUpdate ex1 > interval
            then (ex1\<lparr>lastUpdate := now\<rparr>,
                  setSessions (merge_content (sessionIdForRequest ex1) (aiContent ex1)) st)
            else (ex1, st)))"

text \<open>
  The calls of the callback for the chunks of one stream, in order; \<open>clock k\<close> is what
  \<open>Date.now()\<close> returns in call number \<open>k\<close>.
\<close>

fun deliver ::
  "int \<Rightarrow> (nat \<Rightarrow> int) \<Rightarrow> nat \<Rightarrow> string list \<Rightarrow> exchange \<times> AppState option \<Rightarrow>
   exchange \<times> AppState option" where
  "deliver interval clock k [] x = x"
| "deliver interval clock k (chunk # rest) x =
     deliver interval clock (Suc k) rest (onChunk interval (clock k) chunk x)"

definition fallback_error :: string where
  "fallback_error = ''Sorry, I encountered an error. Please try again.''"

text \<open>Lines 245-246: the assistant message made from what was thrown.\<close>

definition error_msg :: "thrown \<Rightarrow> Message" where
  "error_msg t =
     (case t of Thrown m \<Rightarrow>
        \<lparr>role = Assistant,
         content = ''Error: '' @ (case m of
                                   None \<Rightarrow> fallback_error
                                 | Some e \<Rightarrow> if e \<noteq> [] then e else fallback_error),
         attachments = None\<rparr>)"

text \<open>
  Lines 233-260: after \<open>streamChat\<close> has returned, the final update with the whole
  \<open>aiContent\<close>; after it has thrown, the update with the error message; in both cases
  \<open>setLoading(false)\<close>.
\<close>

definition finish :: "exchange \<Rightarrow> outcome \<Rightarrow> AppState option \<Rightarrow> AppState option" where
  "finish ex r st =
     setLoading False
       (case r of
          Returned \<Rightarrow> setSessions (merge_content (sessionIdForRequest ex) (aiContent ex)) st
        | Threw t \<Rightarrow>
            setSessions (\<lambda>prev. Some (merge_error (sessionIdForRequest ex) (error_msg t) prev)) st)"

text \<open>
  The string that \<open>aiContent += chunk\<close> appends: the chunk itself when it is a string, and
  otherwise what the platform's conversion to a string (\<open>coerce\<close>) makes of it.
\<close>

definition chunk_text :: "(json \<Rightarrow> string) \<Rightarrow> json \<Rightarrow> string" where
  "chunk_text coerce v = (case v of JStr s \<Rightarrow> s | _ \<Rightarrow> coerce v)"

text \<open>Lines 211-213: the system prompt is prepended when there is one.\<close>

definition messagesToSend :: "AppState \<Rightarrow> exchange \<Rightarrow> Message list" where
  "messagesToSend rendered ex =
     (if systemPrompt rendered \<noteq> []
      then \<lparr>role = System, content = systemPrompt rendered, attachments = None\<rparr> # updatedMessages ex
      else updatedMessages ex)"

text \<open>
  One call of \<open>handleSendMessage(content, attachments)\<close> run to its end with nothing else
  happening in between, for a throttle interval \<open>interval\<close>.
\<close>

definition send_message ::
  "int \<Rightarrow> parser \<Rightarrow> (json \<Rightarrow> string) \<Rightarrow> string option \<Rightarrow>
   (Message list \<Rightarrow> ApiConfig \<Rightarrow> transport) \<Rightarrow> (nat \<Rightarrow> int) \<Rightarrow>
   AppState \<Rightarrow> string \<Rightarrow> Attachment list \<Rightarrow> AppState option \<Rightarrow> AppState option" where
  "send_message interval parse coerce env_key service clock rendered text atts st =
     (case send_begin rendered text atts of
        None \<Rightarrow> st
      | Some ex \<Rightarrow>
          (case streamChat parse env_key service (messagesToSend rendered ex) (apiConfig rendered) of
             (deltas, r) \<Rightarrow>
               (case deliver interval clock 0 (map (chunk_text coerce) deltas)
                       (ex, start_exchange ex text st) of
                  (ex', st') \<Rightarrow> finish ex' r st')))"

definition handleSendMessage ::
  "parser \<Rightarrow> (json \<Rightarrow> string) \<Rightarrow> string option \<Rightarrow>
   (Message list \<Rightarrow> ApiConfig \<Rightarrow> transport) \<Rightarrow> (nat \<Rightarrow> int) \<Rightarrow>
   AppState \<Rightarrow> string \<Rightarrow> Attachment list \<Rightarrow> AppState option \<Rightarrow> AppState option" where
  "handleSendMessage = send_message 100"

section \<open>\<open>handleSubmit\<close> (components/ChatInput.tsx)\<close>


section \<open>The stream as a whole\<close>

text \<open>
  The lines of a text that a line feed ends; what follows the last line feed is not among
  them.
\<close>

definition complete_lines :: "string \<Rightarrow> string list" where
  "complete_lines body = butlast (split_nl body)"

text \<open>The result of the \<open>for\<close> loop over some lines, followed by that over the next ones.\<close>

fun then_lines :: "json list \<times> bool \<Rightarrow> json list \<times> bool \<Rightarrow> json list \<times> bool" where
  "then_lines (ds, stop) r = (if stop then (ds, True) else (ds @ fst r, snd r))"

definition end_outcome :: "ending \<Rightarrow> outcome" where
  "end_outcome e = (case e of EndOfStream \<Rightarrow> Returned | ReadFails t \<Rightarrow> Threw t)"

text \<open>The decoder run on the whole text of a stream at once.\<close>

definition decode_text :: "parser \<Rightarrow> string \<Rightarrow> ending \<Rightarrow> json list \<times> outcome" where
  "decode_text parse body e =
     (case for_lines parse (complete_lines body) of
        (ds, stop) \<Rightarrow> (ds, if stop then Returned else end_outcome e))"

text \<open>
  What the decoder makes of a whole text, line by line. A line that begins, untrimmed,
  with \<open>data: \<close> contributes the delta of its payload \<open>line.slice(6)\<close>, when there is one;
  any other line contributes nothing. \<open>all_frame_contents\<close> lists these deltas for all
  lines of a text that a line feed ends, in order, and \<open>frame_contents\<close> for those before
  the first line that is the sentinel once trimmed.
\<close>

definition line_content :: "parser \<Rightarrow> string \<Rightarrow> json option" where
  "line_content parse line =
     (if startsWith data_prefix line then frame_delta parse (drop 6 line) else None)"

definition all_frame_contents :: "parser \<Rightarrow> string \<Rightarrow> json list" where
  "all_frame_contents parse body = List.map_filter (line_content parse) (complete_lines body)"

definition frame_contents :: "parser \<Rightarrow> string \<Rightarrow> json list" where
  "frame_contents parse body =
     List.map_filter (line_content parse)
       (takeWhile (\<lambda>line. trim line \<noteq> done_line) (complete_lines body))"

section \<open>The frames of the specification\<close>

text \<open>
  The specification (4.1) takes a line as a valid frame when, after trimming, it is
  non-empty and begins with \<open>data: \<close>; the payload is the text after the prefix, and the
  frame whose payload is \<open>[DONE]\<close> is the sentinel, after which nothing is emitted.
  \<open>spec_deltas\<close> lists the contents of the valid frames of a text, in order, up to the
  sentinel.
\<close>

definition spec_valid_frame :: "string \<Rightarrow> bool" where
  "spec_valid_frame line = (trim line \<noteq> [] \<and> startsWith data_prefix (trim line))"

definition spec_payload :: "string \<Rightarrow> string" where
  "spec_payload line = drop 6 (trim line)"

definition spec_deltas :: "parser \<Rightarrow> string \<Rightarrow> json list" where
  "spec_deltas parse body =
     List.map_filter
       (\<lambda>line. if spec_valid_frame line then frame_delta parse (spec_payload line) else None)
       (takeWhile (\<lambda>line. \<not> (spec_valid_frame line \<and> spec_payload line = ''[DONE]''))
          (split_nl body))"

section \<open>Views of the store\<close>

definition assistant_message :: "string \<Rightarrow> Message" where
  "assistant_message c = \<lparr>role = Assistant, content = c, attachments = None\<rparr>"

definition user_message :: "string \<Rightarrow> Message" where
  "user_message c = \<lparr>role = User, content = c, attachments = Some []\<rparr>"

text \<open>
  The sessions in which the session of an exchange shows the messages of the request
  followed by \<open>reply\<close>, every other session being as it is.
\<close>

definition with_reply :: "exchange \<Rightarrow> Message list \<Rightarrow> ChatSession list \<Rightarrow> ChatSession list" where
  "with_reply ex reply ss =
     map (\<lambda>s. if session_id s = sessionIdForRequest ex
              then s\<lparr>messages := updatedMessages ex @ reply\<rparr>
              else s)
         ss"

text \<open>The state while the exchange streams: the reply shows the snapshot \<open>c\<close>.\<close>

definition streaming :: "exchange \<Rightarrow> AppState \<Rightarrow> string \<Rightarrow> AppState" where
  "streaming ex base c = base\<lparr>sessions := with_reply ex [assistant_message c] (sessions base)\<rparr>"

text \<open>
  The snapshot that the store shows after the callback has run for some chunks, from the
  exchange and the snapshot \<open>c\<close> shown before: that of the last chunk that passed the
  throttle, and \<open>c\<close> when none did.
\<close>

fun snapshot_shown :: "int \<Rightarrow> (nat \<Rightarrow> int) \<Rightarrow> nat \<Rightarrow> string list \<Rightarrow> exchange \<Rightarrow> string \<Rightarrow> string" where
  "snapshot_shown interval clock k [] ex c = c"
| "snapshot_shown interval clock k (chunk # rest) ex c =
     (if clock k - lastUpdate ex > interval
      then snapshot_shown interval clock (Suc k) rest
             (ex\<lparr>aiContent := aiContent ex @ chunk, lastUpdate := clock k\<rparr>) (aiContent ex @ chunk)
      else snapshot_shown interval clock (Suc k) rest (ex\<lparr>aiContent := aiContent ex @ chunk\<rparr>) c)"

text \<open>The messages, and the titles, of every session of a state.\<close>

definition transcript :: "AppState option \<Rightarrow> Message list list option" where
  "transcript st = map_option (\<lambda>a. map messages (sessions a)) st"

definition titles :: "AppState option \<Rightarrow> string list option" where
  "titles st = map_option (\<lambda>a. map title (sessions a)) st"

text \<open>The attachments of all messages of all sessions, in order.\<close>

definition all_attachments :: "ChatSession list \<Rightarrow> Attachment list" where
  "all_attachments ss =
     concat (map (\<lambda>s. concat (map (\<lambda>m. case attachments m of None \<Rightarrow> [] | Some as \<Rightarrow> as)
                                (messages s))) ss)"

text \<open>The document attachments of every message of every session.\<close>

definition file_attachments :: "ChatSession list \<Rightarrow> Attachment list option list list" where
  "file_attachments ss =
     map (\<lambda>s. map (\<lambda>m. map_option (filter (\<lambda>a. att_type a = File)) (attachments m)) (messages s)) ss"

section \<open>Sample data\<close>

subsection \<open>A stream\<close>

text \<open>The event \<open>{"choices":[{"delta":{"content": s}}]}\<close>.\<close>

definition delta_event :: "string \<Rightarrow> json" where
  "delta_event s = JObj [(''choices'', JArr [JObj [(''delta'', JObj [(''content'', JStr s)])]])]"

definition hel_line :: string where
  \<open>hel_line = ''data: {"choices":[{"delta":{"content":"Hel"}}]}''\<close>

definition lo_line :: string where
  \<open>lo_line = ''data: {"choices":[{"delta":{"content":"lo"}}]}''\<close>

text \<open>A parser that knows the two payloads above and rejects every other text.\<close>

definition sample_parse :: parser where
  "sample_parse payload =
     (if payload = drop 6 hel_line then Some (delta_event ''Hel'')
      else if payload = drop 6 lo_line then Some (delta_event ''lo'')
      else None)"

text \<open>The same two frames, cut inside the second prefix and cut at the line feeds.\<close>

definition chunks_a :: "string list" where
  "chunks_a = [hel_line @ newline # ''da'', drop 2 lo_line @ [newline]]"

definition chunks_b :: "string list" where
  "chunks_b = [hel_line, [newline], lo_line, [newline]]"

definition indented_line :: string where
  "indented_line = CHR 0x20 # hel_line"

definition comment_line :: string where
  "comment_line = '': keep-alive''"

definition broken_line :: string where
  "broken_line = ''data: {not json''"

subsection \<open>A store\<close>

definition sample_session :: ChatSession where
  "sample_session =
     \<lparr>session_id = ''s1'', projectId = None, title = ''New Chat'', messages = [], timestamp = 0\<rparr>"

definition other_session :: ChatSession where
  "other_session =
     \<lparr>session_id = ''s2'', projectId = None, title = ''Older'',
      messages = [user_message ''hey'', assistant_message ''yo''], timestamp = 0\<rparr>"

definition sample_state :: AppState where
  "sample_state =
     \<lparr>sessions = [sample_session, other_session], currentSessionId = Some ''s1'',
      loading = False, apiConfig = \<lparr>apiKey = ''key'', model = ''m''\<rparr>, systemPrompt = []\<rparr>"

definition no_key_state :: AppState where
  "no_key_state = sample_state\<lparr>apiConfig := \<lparr>apiKey = [], model = ''m''\<rparr>\<rparr>"

text \<open>The exchange that sending \<open>text\<close> without attachments begins in \<open>sample_state\<close>.\<close>

definition sample_exchange :: "string \<Rightarrow> exchange" where
  "sample_exchange text =
     \<lparr>sessionIdForRequest = ''s1'', updatedMessages = [user_message text], aiContent = [],
      lastUpdate = 0\<rparr>"

text \<open>A service that answers every request with the same body.\<close>

definition sample_service :: "string list \<Rightarrow> ending \<Rightarrow> Message list \<Rightarrow> ApiConfig \<Rightarrow> transport" where
  "sample_service chunks e msgs config = Body chunks e"

text \<open>A clock that reads 1000 at every call: all deltas arrive in the same millisecond.\<close>

definition same_instant :: "nat \<Rightarrow> int" where
  "same_instant k = 1000"

definition no_coercion :: "json \<Rightarrow> string" where
  "no_coercion v = []"

definition lost :: thrown where
  "lost = Thrown (Some ''connection lost'')"

text \<open>The exchange of \<open>Hi\<close> after its first delta, published at 1000.\<close>

definition streaming_exchange :: exchange where
  "streaming_exchange = (sample_exchange ''Hi'')\<lparr>aiContent := ''Hel'', lastUpdate := 1000\<rparr>"

definition streaming_state :: AppState where
  "streaming_state = streaming (sample_exchange ''Hi'') sample_state ''Hel''"

subsection \<open>A message submitted during an exchange\<close>






subsection \<open>Attachments\<close>

definition photo :: Attachment where
  "photo = \<lparr>att_id = ''a1'', att_name = ''cat.png'', att_type = Image, att_content = ''iVBOR'',
            att_mimeType = Some ''image/png''\<rparr>"

definition memo :: Attachment where
  "memo = \<lparr>att_id = ''a2'', att_name = ''notes.txt'', att_type = File, att_content = ''to do'',
            att_mimeType = Some ''text/plain''\<rparr>"

definition illustrated :: "ChatSession list" where
  "illustrated =
     [sample_session\<lparr>messages :=
        [\<lparr>role = User, content = ''look'', attachments = Some [photo, memo]\<rparr>,
         assistant_message ''nice'']\<rparr>]"

section \<open>Lines and chunks\<close>

lemma split_nl_not_Nil [simp]: "split_nl s \<noteq> []"
  by (induction s) (auto split: list.splits)

lemma split_nl_no_newline: "newline \<notin> set s \<Longrightarrow> split_nl s = [s]"
  by (induction s) auto

lemma split_nl_append:
  "split_nl (x @ y) = butlast (split_nl x) @ split_nl (last (split_nl x) @ y)"
proof (induction x)
  case Nil
  show ?case by simp
next
  case (Cons c cs)
  show ?case
  proof (cases "c = newline")
    case True
    with Cons show ?thesis by simp
  next
    case False
    obtain l ls where sp: "split_nl cs = l # ls"
      by (cases "split_nl cs") auto
    show ?thesis
    proof (cases ls)
      case Nil
      with sp Cons False show ?thesis by simp
    next
      case (Cons a as)
      with sp Cons.IH False show ?thesis by simp
    qed
  qed
qed

lemma last_split_nl_no_newline: "newline \<notin> set (last (split_nl s))"
  by (induction s) (auto split: list.splits)

lemma split_nl_newline: "split_nl (x @ newline # y) = split_nl x @ split_nl y"
  by (induction x) (auto split: list.splits)

lemma complete_lines_append:
  "complete_lines (x @ y) = complete_lines x @ complete_lines (last (split_nl x) @ y)"
  by (simp add: complete_lines_def split_nl_append [of x y] butlast_append)

lemma complete_lines_terminated:
  "pre = [] \<or> last pre = newline \<Longrightarrow> split_nl pre = complete_lines pre @ [[]]"
proof (cases "pre = []")
  case True
  then show ?thesis by (simp add: complete_lines_def)
next
  case False
  assume "pre = [] \<or> last pre = newline"
  with False have "pre = butlast pre @ newline # []"
    by (metis append_butlast_last_id)
  then have "split_nl pre = split_nl (butlast pre) @ split_nl []"
    using split_nl_newline [of "butlast pre" "[]"] by simp
  then show ?thesis by (simp add: complete_lines_def butlast_append)
qed

lemma complete_lines_insert:
  assumes "pre = [] \<or> last pre = newline" "newline \<notin> set s"
  shows "complete_lines (pre @ s @ newline # post) = complete_lines pre @ [s] @ complete_lines post"
proof -
  have b: "butlast (split_nl pre) = complete_lines pre"
    by (simp add: complete_lines_def)
  have l: "last (split_nl pre) = []"
    using complete_lines_terminated [OF assms(1)] by (metis last_snoc)
  have "split_nl (pre @ s) = complete_lines pre @ [s]"
    unfolding split_nl_append [of pre s] l b using assms(2) by (simp add: split_nl_no_newline)
  moreover have "split_nl ((pre @ s) @ newline # post) = split_nl (pre @ s) @ split_nl post"
    by (rule split_nl_newline)
  ultimately have "split_nl (pre @ s @ newline # post) = (complete_lines pre @ [s]) @ split_nl post"
    by simp
  then show ?thesis
    unfolding complete_lines_def [of "pre @ s @ newline # post"] complete_lines_def [of post]
    by (simp add: butlast_append)
qed

section \<open>The loop over the lines\<close>

lemma for_lines_append:
  "for_lines parse (a @ b) = then_lines (for_lines parse a) (for_lines parse b)"
  by (induction a) (auto split: line_kind.splits option.splits prod.splits)

lemma startsWith_iff: "startsWith p s \<longleftrightarrow> (\<exists>r. s = p @ r)"
  by (induction p s rule: startsWith.induct) auto

lemma trim_Nil_iff: "trim s = [] \<longleftrightarrow> (\<forall>c \<in> set s. is_ws c)"
proof
  assume "trim s = []"
  then have a: "\<forall>c \<in> set (dropWhile is_ws s). is_ws c"
    by (simp add: trim_def dropWhile_eq_Nil_conv)
  have "dropWhile is_ws s = []"
  proof (rule ccontr)
    assume n: "dropWhile is_ws s \<noteq> []"
    then have "\<not> is_ws (hd (dropWhile is_ws s))" by (rule hd_dropWhile)
    moreover have "hd (dropWhile is_ws s) \<in> set (dropWhile is_ws s)" using n by simp
    ultimately show False using a by blast
  qed
  then show "\<forall>c \<in> set s. is_ws c" by (simp add: dropWhile_eq_Nil_conv)
next
  assume "\<forall>c \<in> set s. is_ws c"
  then show "trim s = []"
    by (auto simp: trim_def dropWhile_eq_Nil_conv dest: set_dropWhileD)
qed

lemma data_line_not_blank: "startsWith data_prefix line \<Longrightarrow> trim line \<noteq> []"
proof -
  assume "startsWith data_prefix line"
  then obtain r where "line = data_prefix @ r" by (auto simp: startsWith_iff)
  then have "CHR ''d'' \<in> set line" by (simp add: data_prefix_def)
  moreover have "\<not> is_ws CHR ''d''" by (simp add: is_ws_def)
  ultimately show ?thesis by (auto simp: trim_Nil_iff)
qed

lemma classify_cases:
  "classify line = Sentinel \<longleftrightarrow> trim line = done_line"
  "trim line \<noteq> done_line \<Longrightarrow> startsWith data_prefix line \<Longrightarrow> classify line = DataFrame (drop 6 line)"
  "trim line \<noteq> done_line \<Longrightarrow> \<not> startsWith data_prefix line \<Longrightarrow> classify line = Blank \<or> classify line = Other"
  by (auto simp: classify_def done_line_def dest: data_line_not_blank)

lemma for_lines_step:
  "for_lines parse (line # rest) =
     (if trim line = done_line then ([], True)
      else (case line_content parse line of
              None \<Rightarrow> for_lines parse rest
            | Some c \<Rightarrow> (c # fst (for_lines parse rest), snd (for_lines parse rest))))"
proof (cases "trim line = done_line")
  case True
  then show ?thesis using classify_cases(1) [of line] by simp
next
  case nd: False
  show ?thesis
  proof (cases "startsWith data_prefix line")
    case True
    with nd classify_cases(2) [of line] show ?thesis
      by (auto simp: line_content_def split: option.splits prod.splits)
  next
    case False
    with nd classify_cases(3) [of line] show ?thesis
      by (auto simp: line_content_def)
  qed
qed

lemma fst_for_lines:
  "fst (for_lines parse ls) =
   List.map_filter (line_content parse) (takeWhile (\<lambda>line. trim line \<noteq> done_line) ls)"
proof (induction ls)
  case Nil
  show ?case by (simp add: List.map_filter_simps)
next
  case (Cons line rest)
  then show ?case
    by (simp add: for_lines_step List.map_filter_simps del: for_lines.simps split: option.splits)
qed

text \<open>
  On an event of the wire format, \<open>{choices: [{delta: {content: s}}, ...]}\<close> with any
  further properties, the delta is the string \<open>s\<close>, and there is none when \<open>s\<close> is empty.
\<close>

lemma frame_delta_event:
  assumes "parse payload = Some (JObj ps)"
    and "map_of ps ''choices'' = Some (JArr (JObj qs # others))"
    and "map_of qs ''delta'' = Some (JObj rs)"
    and "map_of rs ''content'' = Some (JStr s)"
  shows "frame_delta parse payload = (if s = [] then None else Some (JStr s))"
  using assms by (simp add: frame_delta_def)

section \<open>Reading in chunks is decoding the whole text\<close>

lemma read_loop_decode_text:
  "newline \<notin> set buffer \<Longrightarrow>
   read_loop parse buffer chunks e = decode_text parse (buffer @ concat chunks) e"
proof (induction chunks arbitrary: buffer)
  case Nil
  then show ?case
    by (simp add: decode_text_def complete_lines_def split_nl_no_newline end_outcome_def)
next
  case (Cons chunk rest)
  let ?lines = "split_nl (buffer @ chunk)"
  have ih: "read_loop parse (last ?lines) rest e = decode_text parse (last ?lines @ concat rest) e"
    by (rule Cons.IH) (rule last_split_nl_no_newline)
  have cl: "complete_lines (buffer @ concat (chunk # rest))
            = butlast ?lines @ complete_lines (last ?lines @ concat rest)"
    using complete_lines_append [of "buffer @ chunk" "concat rest"]
    by (simp add: complete_lines_def)
  show ?case
    unfolding decode_text_def cl for_lines_append
    using ih
    by (auto simp: decode_text_def Let_def split: prod.splits bool.splits)
qed

lemma fst_decode_text: "fst (decode_text parse body e) = frame_contents parse body"
  by (cases "for_lines parse (complete_lines body)")
     (metis (no_types, lifting) decode_text_def frame_contents_def fst_conv fst_for_lines
        old.prod.case)

section \<open>The frames of the specification and the lines of the decoder\<close>

lemma spec_sentinel_iff:
  "(spec_valid_frame line \<and> spec_payload line = ''[DONE]'') \<longleftrightarrow> trim line = done_line"
proof
  assume a: "spec_valid_frame line \<and> spec_payload line = ''[DONE]''"
  then obtain r where r: "trim line = data_prefix @ r"
    by (auto simp: spec_valid_frame_def startsWith_iff)
  then have "drop 6 (trim line) = r" by (simp add: data_prefix_def)
  with a r show "trim line = done_line"
    by (simp add: spec_payload_def done_line_def data_prefix_def)
next
  assume "trim line = done_line"
  then show "spec_valid_frame line \<and> spec_payload line = ''[DONE]''"
    by (simp add: spec_valid_frame_def spec_payload_def done_line_def data_prefix_def)
qed

lemma map_filter_append: "List.map_filter f (xs @ ys) = List.map_filter f xs @ List.map_filter f ys"
  by (simp add: List.map_filter_def)

lemma map_filter_cong_set:
  "\<forall>x \<in> set xs. f x = g x \<Longrightarrow> List.map_filter f xs = List.map_filter g xs"
  by (induction xs) (auto simp: List.map_filter_simps split: option.splits)

text \<open>
  On a text that ends with a line feed, and on whose lines the specification's reading
  of a frame and the decoder's reading of a line yield the same content, the deltas of
  the specification are those of the decoder.
\<close>

lemma spec_deltas_agree:
  assumes "body = [] \<or> last body = newline"
    and "\<forall>line \<in> set (complete_lines body).
           (if spec_valid_frame line then frame_delta parse (spec_payload line) else None)
           = line_content parse line"
  shows "spec_deltas parse body = frame_contents parse body"
proof -
  let ?f = "\<lambda>line. if spec_valid_frame line then frame_delta parse (spec_payload line) else None"
  let ?P = "\<lambda>line. trim line \<noteq> done_line"
  let ?xs = "complete_lines body"
  have sp: "split_nl body = ?xs @ [[]]"
    by (rule complete_lines_terminated [OF assms(1)])
  have P: "(\<lambda>line. \<not> (spec_valid_frame line \<and> spec_payload line = ''[DONE]'')) = ?P"
    by (simp add: spec_sentinel_iff)
  have e: "?f [] = None" by (simp add: spec_valid_frame_def trim_def)
  have "List.map_filter ?f (takeWhile ?P (?xs @ [[]])) = List.map_filter ?f (takeWhile ?P ?xs)"
  proof (cases "\<forall>x \<in> set ?xs. ?P x")
    case True
    have t1: "takeWhile ?P (?xs @ [[]]) = ?xs @ takeWhile ?P [[]]"
      using True by (simp add: takeWhile_append2)
    have t2: "takeWhile ?P ?xs = ?xs" using True by (simp add: takeWhile_eq_all_conv)
    have t3: "List.map_filter ?f (takeWhile ?P [[]]) = []"
      using e by (simp add: List.map_filter_simps)
    show ?thesis unfolding t1 t2 map_filter_append t3 by simp
  next
    case False
    then obtain x where "x \<in> set ?xs" "\<not> ?P x" by blast
    then show ?thesis by (simp add: takeWhile_append1)
  qed
  moreover have "List.map_filter ?f (takeWhile ?P ?xs) = List.map_filter (line_content parse) (takeWhile ?P ?xs)"
  proof (rule map_filter_cong_set)
    show "\<forall>x \<in> set (takeWhile ?P ?xs). ?f x = line_content parse x"
    proof
      fix x
      assume "x \<in> set (takeWhile ?P ?xs)"
      then have "x \<in> set ?xs" by (rule set_takeWhileD [THEN conjunct1])
      then show "?f x = line_content parse x" using assms(2) by blast
    qed
  qed
  ultimately show ?thesis
    unfolding spec_deltas_def frame_contents_def sp P by simp
qed

section \<open>The claims about the decoder\<close>

text \<open>
  C10. When the stream ends while the buffer still holds a line that no line feed ended,
  that text is dropped: whatever the chunks, a stream whose text is \<open>body @ tail\<close>, with no
  line feed in \<open>tail\<close>, gives the same deltas and the same outcome as the stream of \<open>body\<close>
  alone, also when \<open>tail\<close> is a complete, well-formed \<open>data: \<close> frame.
\<close>

theorem unterminated_line_dropped:
  "newline \<notin> set tail \<Longrightarrow> concat chunks = body @ tail \<Longrightarrow>
   read_loop parse [] chunks e = read_loop parse [] [body] e"
proof -
  assume t: "newline \<notin> set tail" and c: "concat chunks = body @ tail"
  have "newline \<notin> set (last (split_nl body) @ tail)"
    using t last_split_nl_no_newline [of body] by simp
  then have "complete_lines (body @ tail) = complete_lines body"
    using complete_lines_append [of body tail]
    by (simp add: complete_lines_def split_nl_no_newline)
  then have "decode_text parse (body @ tail) e = decode_text parse body e"
    by (simp add: decode_text_def)
  then show ?thesis
    using read_loop_decode_text [of "[]" parse chunks e]
          read_loop_decode_text [of "[]" parse "[body]" e] c
    by simp
qed

theorem unterminated_line_dropped_witness:
  "newline \<notin> set lo_line
   \<and> concat [hel_line, newline # lo_line] = (hel_line @ [newline]) @ lo_line
   \<and> read_loop sample_parse [] [hel_line, newline # lo_line] EndOfStream
       = read_loop sample_parse [] [hel_line @ [newline]] EndOfStream
   \<and> read_loop sample_parse [] [hel_line, newline # lo_line] EndOfStream
       = ([JStr ''Hel''], Returned)
   \<and> read_loop sample_parse [] [hel_line, newline # lo_line, [newline]] EndOfStream
       = ([JStr ''Hel'', JStr ''lo''], Returned)"
proof -
  have h1: "newline \<notin> set lo_line" by code_simp
  have h2: "concat [hel_line, newline # lo_line] = (hel_line @ [newline]) @ lo_line" by simp
  have r1: "read_loop sample_parse [] [hel_line @ [newline]] EndOfStream
            = ([JStr ''Hel''], Returned)"
    by code_simp
  have r2: "read_loop sample_parse [] [hel_line, newline # lo_line, [newline]] EndOfStream
            = ([JStr ''Hel'', JStr ''lo''], Returned)"
    by code_simp
  show ?thesis
    using h1 h2 r1 r2 unterminated_line_dropped [OF h1 h2, of sample_parse EndOfStream] by simp
qed

text \<open>
  C3, as stated, fails on the frames of the specification: a line with a leading space
  is a valid frame with the content \<open>Hel\<close> and the decoder emits nothing for it, and a
  last frame that no line feed ends is not emitted either.
\<close>

theorem decoder_order_counterexample:
  "spec_deltas sample_parse (indented_line @ [newline]) = [JStr ''Hel'']
   \<and> fst (read_loop sample_parse [] [indented_line @ [newline]] EndOfStream) = []
   \<and> spec_deltas sample_parse (hel_line @ newline # lo_line) = [JStr ''Hel'', JStr ''lo'']
   \<and> fst (read_loop sample_parse [] [hel_line @ newline # lo_line] EndOfStream) = [JStr ''Hel'']"
  by code_simp

text \<open>
  C3, amended. Whatever the chunks, the deltas that the decoder emits are, in order, the
  contents of the lines of the stream's text that a line feed ends and that begin,
  untrimmed, with \<open>data: \<close>, up to the sentinel line (and of all such lines when no line is
  the sentinel), so that their concatenation is the concatenation of these contents; and
  two sequences of chunks that cut the same text at different points give the same
  deltas.
\<close>

theorem decoder_order_chunking:
  "fst (read_loop parse [] chunks e) = frame_contents parse (concat chunks)
   \<and> concat (map (chunk_text coerce) (fst (read_loop parse [] chunks e)))
       = concat (map (chunk_text coerce) (frame_contents parse (concat chunks)))
   \<and> ((\<forall>line \<in> set (complete_lines (concat chunks)). trim line \<noteq> done_line) \<longrightarrow>
        fst (read_loop parse [] chunks e) = all_frame_contents parse (concat chunks))
   \<and> (concat chunks' = concat chunks \<longrightarrow>
        fst (read_loop parse [] chunks' e') = fst (read_loop parse [] chunks e))"
proof -
  have a: "fst (read_loop parse [] cs x) = frame_contents parse (concat cs)" for cs x
    using read_loop_decode_text [of "[]" parse cs x] by (simp add: fst_decode_text)
  have b: "frame_contents parse (concat chunks) = all_frame_contents parse (concat chunks)"
    if "\<forall>line \<in> set (complete_lines (concat chunks)). trim line \<noteq> done_line"
  proof -
    have tw: "takeWhile (\<lambda>line. trim line \<noteq> done_line) (complete_lines (concat chunks))
          = complete_lines (concat chunks)"
      using that by (simp add: takeWhile_eq_all_conv)
    show ?thesis unfolding frame_contents_def all_frame_contents_def tw ..
  qed
  show ?thesis using a b by simp
qed

theorem decoder_order_chunking_witness:
  "list_all (\<lambda>line. trim line \<noteq> done_line) (complete_lines (concat chunks_a))
   \<and> concat chunks_b = concat chunks_a
   \<and> fst (read_loop sample_parse [] chunks_a EndOfStream) = [JStr ''Hel'', JStr ''lo'']
   \<and> fst (read_loop sample_parse [] chunks_b EndOfStream) = [JStr ''Hel'', JStr ''lo'']
   \<and> all_frame_contents sample_parse (concat chunks_a) = [JStr ''Hel'', JStr ''lo'']
   \<and> concat (map (chunk_text (\<lambda>v. [])) (frame_contents sample_parse (concat chunks_a))) = ''Hello''
   \<and> spec_deltas sample_parse (concat chunks_a) = [JStr ''Hel'', JStr ''lo'']"
proof -
  have sp: "spec_deltas sample_parse (concat chunks_a) = [JStr ''Hel'', JStr ''lo'']"
    by code_simp
  have h1: "\<forall>line \<in> set (complete_lines (concat chunks_a)). trim line \<noteq> done_line"
    by code_simp
  have h2: "concat chunks_b = concat chunks_a"
    by code_simp
  have r: "fst (read_loop sample_parse [] chunks_a EndOfStream) = [JStr ''Hel'', JStr ''lo'']"
    by code_simp
  note t = decoder_order_chunking
             [of sample_parse chunks_a EndOfStream "\<lambda>v. []" chunks_b EndOfStream]
  from t h1 have e1: "all_frame_contents sample_parse (concat chunks_a)
                      = fst (read_loop sample_parse [] chunks_a EndOfStream)"
    by metis
  from t h2 have e2: "fst (read_loop sample_parse [] chunks_b EndOfStream)
                      = fst (read_loop sample_parse [] chunks_a EndOfStream)"
    by blast
  from t have e3: "concat (map (chunk_text (\<lambda>v. [])) (frame_contents sample_parse (concat chunks_a)))
                   = concat (map (chunk_text (\<lambda>v. []))
                       (fst (read_loop sample_parse [] chunks_a EndOfStream)))"
    by metis
  show ?thesis
    unfolding e1 e2 e3 r using h1 h2 sp by (simp add: chunk_text_def list_all_iff)
qed

text \<open>
  C4. A line that is \<open>data: [DONE]\<close> once trimmed ends the stream: \<open>streamChat\<close> returns,
  the deltas emitted are those of the frames before that line, and nothing that follows
  it (neither frames nor the way the transport ends) has any effect.
\<close>

theorem sentinel_terminates:
  assumes "trim s = done_line" "newline \<notin> set s" "pre = [] \<or> last pre = newline"
    and "concat chunks = pre @ s @ newline # post"
  shows "read_loop parse [] chunks e = (frame_contents parse pre, Returned)"
proof -
  have cl: "complete_lines (concat chunks) = complete_lines pre @ s # complete_lines post"
    using complete_lines_insert [OF assms(3) assms(2)] assms(4) by simp
  have s: "for_lines parse (s # complete_lines post) = ([], True)"
    using assms(1) by (simp add: for_lines_step del: for_lines.simps)
  have "for_lines parse (complete_lines (concat chunks))
        = (fst (for_lines parse (complete_lines pre)), True)"
    unfolding cl for_lines_append s
    by (cases "for_lines parse (complete_lines pre)") simp
  then have "decode_text parse (concat chunks) e = (fst (for_lines parse (complete_lines pre)), Returned)"
    by (simp add: decode_text_def)
  then show ?thesis
    using read_loop_decode_text [of "[]" parse chunks e]
    by (simp add: fst_for_lines frame_contents_def)
qed

theorem sentinel_terminates_witness:
  "trim (done_line @ [CHR 0x0D]) = done_line
   \<and> newline \<notin> set (done_line @ [CHR 0x0D])
   \<and> last (hel_line @ [newline]) = newline
   \<and> concat [hel_line @ newline # ''data: [DO'', ''NE]'' @ CHR 0x0D # newline # lo_line @ [newline]]
       = (hel_line @ [newline]) @ (done_line @ [CHR 0x0D]) @ newline # (lo_line @ [newline])
   \<and> read_loop sample_parse []
        [hel_line @ newline # ''data: [DO'', ''NE]'' @ CHR 0x0D # newline # lo_line @ [newline]]
        (ReadFails (Thrown None))
       = ([JStr ''Hel''], Returned)"
proof -
  have h1: "trim (done_line @ [CHR 0x0D]) = done_line" by code_simp
  have h2: "newline \<notin> set (done_line @ [CHR 0x0D])" by code_simp
  have h3: "hel_line @ [newline] = [] \<or> last (hel_line @ [newline]) = newline" by simp
  have h4: "concat [hel_line @ newline # ''data: [DO'', ''NE]'' @ CHR 0x0D # newline # lo_line @ [newline]]
       = (hel_line @ [newline]) @ (done_line @ [CHR 0x0D]) @ newline # (lo_line @ [newline])"
    by (simp add: done_line_def)
  have r: "frame_contents sample_parse (hel_line @ [newline]) = [JStr ''Hel'']" by code_simp
  show ?thesis
    using h1 h2 h4 r sentinel_terminates [OF h1 h2 h3 h4, of sample_parse "ReadFails (Thrown None)"]
    by simp
qed

lemma decode_without_line:
  assumes "newline \<notin> set line" "pre = [] \<or> last pre = newline"
    and "trim line \<noteq> done_line" "line_content parse line = None"
  shows "decode_text parse (pre @ line @ newline # post) e = decode_text parse (pre @ post) e"
proof -
  have l: "last (split_nl pre) = []"
    using complete_lines_terminated [OF assms(2)] by (metis last_snoc)
  have a: "complete_lines (pre @ line @ newline # post)
           = complete_lines pre @ [line] @ complete_lines post"
    by (rule complete_lines_insert [OF assms(2) assms(1)])
  have b: "complete_lines (pre @ post) = complete_lines pre @ complete_lines post"
    using complete_lines_append [of pre post] l by simp
  have c: "for_lines parse (line # ls) = for_lines parse ls" for ls
    using assms(3,4) by (simp add: for_lines_step del: for_lines.simps)
  have "for_lines parse (complete_lines (pre @ line @ newline # post))
        = for_lines parse (complete_lines (pre @ post))"
    unfolding a b for_lines_append [of parse "complete_lines pre"] using c by simp
  then show ?thesis by (simp add: decode_text_def)
qed

text \<open>
  C5, as stated, fails: a line with a leading space is, once trimmed, non-empty and begins
  with \<open>data: \<close>, and its payload has a content, but the decoder tests the prefix on the
  untrimmed line and emits nothing for it.
\<close>

theorem frame_validity_counterexample:
  "trim indented_line \<noteq> []
   \<and> startsWith data_prefix (trim indented_line)
   \<and> frame_delta sample_parse (drop 6 (trim indented_line)) = Some (JStr ''Hel'')
   \<and> classify indented_line = Other
   \<and> read_loop sample_parse [] [indented_line @ [newline]] EndOfStream = ([], Returned)
   \<and> read_loop sample_parse [] [trim indented_line @ [newline]] EndOfStream
       = ([JStr ''Hel''], Returned)"
  by code_simp

text \<open>
  C5, amended. A line is treated as a frame exactly when, untrimmed, it begins with
  \<open>data: \<close> and, trimmed, it is not the sentinel. Any other line that is not the sentinel,
  and any frame whose payload yields no content, is skipped: the stream gives the same
  deltas and ends the same way as the stream without that line.
\<close>

theorem frame_validity:
  assumes "newline \<notin> set line" and "pre = [] \<or> last pre = newline"
    and "concat chunks = pre @ line @ newline # post" and "concat chunks' = pre @ post"
  shows "((\<exists>payload. classify line = DataFrame payload)
            \<longleftrightarrow> startsWith data_prefix line \<and> trim line \<noteq> done_line)
         \<and> (trim line \<noteq> done_line
              \<and> (\<not> startsWith data_prefix line \<or> frame_delta parse (drop 6 line) = None)
            \<longrightarrow> read_loop parse [] chunks e = read_loop parse [] chunks' e)"
proof -
  have a: "(\<exists>payload. classify line = DataFrame payload)
            \<longleftrightarrow> startsWith data_prefix line \<and> trim line \<noteq> done_line"
    using data_line_not_blank [of line] by (auto simp: classify_def)
  have b: "read_loop parse [] chunks e = read_loop parse [] chunks' e"
    if "trim line \<noteq> done_line"
      and "\<not> startsWith data_prefix line \<or> frame_delta parse (drop 6 line) = None"
  proof -
    have "line_content parse line = None"
      using that(2) by (auto simp: line_content_def)
    then have "decode_text parse (concat chunks) e = decode_text parse (concat chunks') e"
      using decode_without_line [OF assms(1) assms(2) that(1)] assms(3,4) by simp
    then show ?thesis
      using read_loop_decode_text [of "[]" parse chunks e]
            read_loop_decode_text [of "[]" parse chunks' e]
      by simp
  qed
  show ?thesis using a b by blast
qed

theorem frame_validity_witness:
  "newline \<notin> set comment_line \<and> newline \<notin> set broken_line
   \<and> last (hel_line @ [newline]) = newline
   \<and> trim comment_line \<noteq> done_line \<and> \<not> startsWith data_prefix comment_line
   \<and> trim broken_line \<noteq> done_line \<and> startsWith data_prefix broken_line
   \<and> frame_delta sample_parse (drop 6 broken_line) = None
   \<and> (\<exists>payload. classify broken_line = DataFrame payload)
   \<and> \<not> (\<exists>payload. classify comment_line = DataFrame payload)
   \<and> read_loop sample_parse [] [hel_line @ newline # comment_line, newline # lo_line @ [newline]]
        EndOfStream = ([JStr ''Hel'', JStr ''lo''], Returned)
   \<and> read_loop sample_parse [] [hel_line @ newline # broken_line, newline # lo_line @ [newline]]
        EndOfStream = ([JStr ''Hel'', JStr ''lo''], Returned)"
proof -
  have n1: "newline \<notin> set comment_line" by code_simp
  have n2: "newline \<notin> set broken_line" by code_simp
  have p: "hel_line @ [newline] = [] \<or> last (hel_line @ [newline]) = newline" by simp
  have c1: "concat [hel_line @ newline # comment_line, newline # lo_line @ [newline]]
            = (hel_line @ [newline]) @ comment_line @ newline # (lo_line @ [newline])" by simp
  have c2: "concat [hel_line @ newline # broken_line, newline # lo_line @ [newline]]
            = (hel_line @ [newline]) @ broken_line @ newline # (lo_line @ [newline])" by simp
  have c': "concat [hel_line @ newline # lo_line @ [newline]]
            = (hel_line @ [newline]) @ (lo_line @ [newline])" by simp
  have h1: "trim comment_line \<noteq> done_line \<and> \<not> startsWith data_prefix comment_line"
    by code_simp
  have h2: "trim broken_line \<noteq> done_line \<and> startsWith data_prefix broken_line
            \<and> frame_delta sample_parse (drop 6 broken_line) = None"
    by code_simp
  have r: "read_loop sample_parse [] [hel_line @ newline # lo_line @ [newline]] EndOfStream
           = ([JStr ''Hel'', JStr ''lo''], Returned)"
    by code_simp
  note t1 = frame_validity [OF n1 p c1 c', of sample_parse EndOfStream]
  note t2 = frame_validity [OF n2 p c2 c', of sample_parse EndOfStream]
  from t1 h1 have e1: "read_loop sample_parse []
        [hel_line @ newline # comment_line, newline # lo_line @ [newline]] EndOfStream
      = read_loop sample_parse [] [hel_line @ newline # lo_line @ [newline]] EndOfStream"
    by metis
  from t2 h2 have e2: "read_loop sample_parse []
        [hel_line @ newline # broken_line, newline # lo_line @ [newline]] EndOfStream
      = read_loop sample_parse [] [hel_line @ newline # lo_line @ [newline]] EndOfStream"
    by metis
  from t1 h1 have k1: "\<not> (\<exists>payload. classify comment_line = DataFrame payload)" by metis
  from t2 h2 have k2: "\<exists>payload. classify broken_line = DataFrame payload" by metis
  show ?thesis
    unfolding e1 e2 r using n1 n2 h1 h2 k1 k2 by simp
qed

section \<open>The store during an exchange\<close>

lemma placeholder_assistant: "placeholder = assistant_message []"
  by (simp add: placeholder_def assistant_message_def)

lemma add_placeholder_with_reply: "add_placeholder ex ss = with_reply ex [assistant_message []] ss"
  by (simp add: add_placeholder_def with_reply_def placeholder_assistant)

lemma with_reply_idem: "with_reply ex r (with_reply ex r' ss) = with_reply ex r ss"
  by (induction ss) (auto simp: with_reply_def)

lemma merge_content_with_reply:
  "merge_content (sessionIdForRequest ex) c (with_reply ex [assistant_message c0] ss)
   = Some (with_reply ex [assistant_message c] ss)"
  by (induction ss)
     (auto simp: merge_content_def with_reply_def set_last_content_def assistant_message_def)

lemma merge_error_with_reply:
  "merge_error (sessionIdForRequest ex) em (with_reply ex [assistant_message c] ss)
   = with_reply ex (if c = [] then [em] else [assistant_message c, em]) ss"
  by (induction ss)
     (auto simp: merge_error_def with_reply_def assistant_message_def)

lemma start_exchange_Some:
  "start_exchange ex text (Some st)
   = Some (st\<lparr>sessions := with_reply ex [assistant_message []] (append_user ex text (sessions st)),
              loading := True\<rparr>)"
  by (simp add: start_exchange_def setSessions_def setLoading_def add_placeholder_with_reply)

lemma setSessions_merge_streaming:
  "setSessions (merge_content (sessionIdForRequest ex) c') (Some (streaming ex base c))
   = Some (streaming ex base c')"
  by (simp add: setSessions_def streaming_def merge_content_with_reply with_reply_idem)

lemma onChunk_snapshot:
  assumes "sessionIdForRequest ex' = sessionIdForRequest ex" "updatedMessages ex' = updatedMessages ex"
  shows "\<exists>ex'' c'. onChunk interval now chunk (ex', Some (streaming ex base c)) = (ex'', Some (streaming ex base c'))
           \<and> sessionIdForRequest ex'' = sessionIdForRequest ex
           \<and> updatedMessages ex'' = updatedMessages ex
           \<and> aiContent ex'' = aiContent ex' @ chunk
           \<and> (c' = c \<or> c' = aiContent ex' @ chunk)"
  using assms setSessions_merge_streaming [of ex _ base c]
  by (auto simp: onChunk_def Let_def)

lemma deliver_snapshot:
  assumes "sessionIdForRequest ex' = sessionIdForRequest ex" "updatedMessages ex' = updatedMessages ex"
  shows "\<exists>ex'' c'. deliver interval clock k chunks (ex', Some (streaming ex base c)) = (ex'', Some (streaming ex base c'))
           \<and> sessionIdForRequest ex'' = sessionIdForRequest ex
           \<and> updatedMessages ex'' = updatedMessages ex
           \<and> aiContent ex'' = aiContent ex' @ concat chunks
           \<and> (c' = c \<or> (\<exists>n. c' = aiContent ex' @ concat (take n chunks)))"
  using assms
proof (induction chunks arbitrary: ex' c k)
  case Nil
  then show ?case by auto
next
  case (Cons chunk rest)
  obtain ex1 c1 where
    s: "onChunk interval (clock k) chunk (ex', Some (streaming ex base c)) = (ex1, Some (streaming ex base c1))"
    and i: "sessionIdForRequest ex1 = sessionIdForRequest ex" "updatedMessages ex1 = updatedMessages ex"
    and a: "aiContent ex1 = aiContent ex' @ chunk"
    and p: "c1 = c \<or> c1 = aiContent ex' @ chunk"
    using onChunk_snapshot [OF Cons.prems, of interval "clock k" chunk base c] by blast
  obtain ex2 c2 where
    d: "deliver interval clock (Suc k) rest (ex1, Some (streaming ex base c1)) = (ex2, Some (streaming ex base c2))"
    and j: "sessionIdForRequest ex2 = sessionIdForRequest ex" "updatedMessages ex2 = updatedMessages ex"
    and b: "aiContent ex2 = aiContent ex1 @ concat rest"
    and q: "c2 = c1 \<or> (\<exists>n. c2 = aiContent ex1 @ concat (take n rest))"
    using Cons.IH [OF i, of "Suc k" c1] by blast
  have "c2 = c \<or> (\<exists>n. c2 = aiContent ex' @ concat (take n (chunk # rest)))"
  proof -
    consider "c2 = c" | "c2 = aiContent ex' @ chunk" | n where "c2 = aiContent ex1 @ concat (take n rest)"
      using p q by blast
    then show ?thesis
    proof cases
      case 1
      then show ?thesis by simp
    next
      case 2
      then have "c2 = aiContent ex' @ concat (take (Suc 0) (chunk # rest))" by simp
      then show ?thesis by blast
    next
      case 3
      then have "c2 = aiContent ex' @ concat (take (Suc n) (chunk # rest))" using a by simp
      then show ?thesis by blast
    qed
  qed
  then show ?case using s d j a b by auto
qed

lemma send_begin_fresh:
  "send_begin rendered text atts = Some ex \<Longrightarrow> aiContent ex = [] \<and> lastUpdate ex = 0"
  by (auto simp: send_begin_def split: option.splits if_splits)

lemma start_exchange_streaming:
  "start_exchange ex text (Some st)
   = Some (streaming ex (st\<lparr>sessions := append_user ex text (sessions st), loading := True\<rparr>) [])"
  by (simp add: start_exchange_Some streaming_def)

lemma finish_streaming:
  assumes "sessionIdForRequest ex' = sessionIdForRequest ex"
  shows "finish ex' r (Some (streaming ex base c))
         = Some (base\<lparr>sessions := with_reply ex
                    (case r of
                       Returned \<Rightarrow> [assistant_message (aiContent ex')]
                     | Threw t \<Rightarrow> if c = [] then [error_msg t] else [assistant_message c, error_msg t])
                    (sessions base),
                  loading := False\<rparr>)"
proof (cases r)
  case Returned
  then show ?thesis
    using setSessions_merge_streaming [of ex "aiContent ex'" base c] assms
    by (simp add: finish_def setLoading_def streaming_def)
next
  case (Threw t)
  then show ?thesis
    using merge_error_with_reply [of ex "error_msg t" c "sessions base"] assms
    by (simp add: finish_def setLoading_def setSessions_def streaming_def with_reply_idem)
qed

lemma send_message_run:
  assumes begun: "send_begin rendered text atts = Some ex"
    and stream: "streamChat parse env_key service (messagesToSend rendered ex) (apiConfig rendered)
                 = (deltas, r)"
  shows "\<exists>c n. c = concat (map (chunk_text coerce) (take n deltas))
         \<and> send_message interval parse coerce env_key service clock rendered text atts (Some st)
         = Some (st\<lparr>sessions := with_reply ex
                    (case r of
                       Returned \<Rightarrow> [assistant_message (concat (map (chunk_text coerce) deltas))]
                     | Threw t \<Rightarrow> if c = [] then [error_msg t] else [assistant_message c, error_msg t])
                    (append_user ex text (sessions st)),
                  loading := False\<rparr>)"
proof -
  let ?base = "st\<lparr>sessions := append_user ex text (sessions st), loading := True\<rparr>"
  let ?chunks = "map (chunk_text coerce) deltas"
  obtain ex' c where
    d: "deliver interval clock 0 ?chunks (ex, Some (streaming ex ?base [])) = (ex', Some (streaming ex ?base c))"
    and i: "sessionIdForRequest ex' = sessionIdForRequest ex"
    and a: "aiContent ex' = aiContent ex @ concat ?chunks"
    and p: "c = [] \<or> (\<exists>n. c = aiContent ex @ concat (take n ?chunks))"
    using deliver_snapshot [of ex ex interval clock 0 ?chunks ?base "[]"] by auto
  have fresh: "aiContent ex = []" using send_begin_fresh [OF begun] by simp
  obtain n where n: "c = concat (map (chunk_text coerce) (take n deltas))"
  proof -
    from p consider "c = []" | m where "c = aiContent ex @ concat (take m ?chunks)" by blast
    then show ?thesis
    proof cases
      case 1
      then have "c = concat (map (chunk_text coerce) (take 0 deltas))" by simp
      then show ?thesis by (rule that)
    next
      case 2
      then have "c = concat (map (chunk_text coerce) (take m deltas))"
        using fresh by (simp add: take_map)
      then show ?thesis by (rule that)
    qed
  qed
  have "send_message interval parse coerce env_key service clock rendered text atts (Some st)
        = finish ex' r (Some (streaming ex ?base c))"
    using begun stream d by (simp add: send_message_def start_exchange_streaming)
  also have "\<dots> = Some (?base\<lparr>sessions := with_reply ex
                    (case r of
                       Returned \<Rightarrow> [assistant_message (aiContent ex')]
                     | Threw t \<Rightarrow> if c = [] then [error_msg t] else [assistant_message c, error_msg t])
                    (sessions ?base),
                  loading := False\<rparr>)"
    by (rule finish_streaming [OF i])
  finally have "send_message interval parse coerce env_key service clock rendered text atts (Some st)
         = Some (st\<lparr>sessions := with_reply ex
                    (case r of
                       Returned \<Rightarrow> [assistant_message (concat (map (chunk_text coerce) deltas))]
                     | Threw t \<Rightarrow> if c = [] then [error_msg t] else [assistant_message c, error_msg t])
                    (append_user ex text (sessions st)),
                  loading := False\<rparr>)"
    using a fresh by (cases r; simp)
  with n show ?thesis by blast
qed

text \<open>What the store shows while the chunks of a stream are delivered.\<close>

lemma onChunk_shown:
  assumes "sessionIdForRequest ex' = sessionIdForRequest ex"
  shows "onChunk interval now chunk (ex', Some (streaming ex base c))
         = (if now - lastUpdate ex' > interval
            then (ex'\<lparr>aiContent := aiContent ex' @ chunk, lastUpdate := now\<rparr>,
                  Some (streaming ex base (aiContent ex' @ chunk)))
            else (ex'\<lparr>aiContent := aiContent ex' @ chunk\<rparr>, Some (streaming ex base c)))"
  using assms setSessions_merge_streaming [of ex "aiContent ex' @ chunk" base c]
  by (simp add: onChunk_def Let_def)

lemma deliver_shown:
  assumes "sessionIdForRequest ex' = sessionIdForRequest ex"
  shows "snd (deliver interval clock k chunks (ex', Some (streaming ex base c)))
         = Some (streaming ex base (snapshot_shown interval clock k chunks ex' c))
         \<and> sessionIdForRequest (fst (deliver interval clock k chunks (ex', Some (streaming ex base c))))
             = sessionIdForRequest ex"
  using assms
proof (induction chunks arbitrary: ex' c k)
  case Nil
  then show ?case by simp
next
  case (Cons chunk rest)
  show ?case
  proof (cases "clock k - lastUpdate ex' > interval")
    case True
    let ?ex1 = "ex'\<lparr>aiContent := aiContent ex' @ chunk, lastUpdate := clock k\<rparr>"
    have i: "sessionIdForRequest ?ex1 = sessionIdForRequest ex" using Cons.prems by simp
    show ?thesis
      using True Cons.IH [OF i, of "Suc k" "aiContent ex' @ chunk"]
      by (simp add: onChunk_shown [OF Cons.prems])
  next
    case False
    let ?ex1 = "ex'\<lparr>aiContent := aiContent ex' @ chunk\<rparr>"
    have i: "sessionIdForRequest ?ex1 = sessionIdForRequest ex" using Cons.prems by simp
    show ?thesis
      using False Cons.IH [OF i, of "Suc k" c]
      by (simp add: onChunk_shown [OF Cons.prems])
  qed
qed

lemma send_message_threw:
  assumes begun: "send_begin rendered text atts = Some ex"
    and stream: "streamChat parse env_key service (messagesToSend rendered ex) (apiConfig rendered)
                 = (deltas, Threw t)"
  shows "send_message interval parse coerce env_key service clock rendered text atts (Some st)
         = Some (st\<lparr>sessions := with_reply ex
                    (if snapshot_shown interval clock 0 (map (chunk_text coerce) deltas) ex [] = []
                     then [error_msg t]
                     else [assistant_message
                             (snapshot_shown interval clock 0 (map (chunk_text coerce) deltas) ex []),
                           error_msg t])
                    (append_user ex text (sessions st)),
                  loading := False\<rparr>)"
proof -
  let ?base = "st\<lparr>sessions := append_user ex text (sessions st), loading := True\<rparr>"
  let ?chunks = "map (chunk_text coerce) deltas"
  let ?c = "snapshot_shown interval clock 0 ?chunks ex []"
  obtain ex' st' where d: "deliver interval clock 0 ?chunks (ex, Some (streaming ex ?base [])) = (ex', st')"
    by (cases "deliver interval clock 0 ?chunks (ex, Some (streaming ex ?base []))")
  have s: "st' = Some (streaming ex ?base ?c)" and i: "sessionIdForRequest ex' = sessionIdForRequest ex"
    using deliver_shown [of ex ex interval clock 0 ?chunks ?base "[]"] d by simp_all
  have "send_message interval parse coerce env_key service clock rendered text atts (Some st)
        = finish ex' (Threw t) (Some (streaming ex ?base ?c))"
    using begun stream d s by (simp add: send_message_def start_exchange_streaming)
  also have "\<dots> = Some (?base\<lparr>sessions := with_reply ex
                    (case Threw t of
                       Returned \<Rightarrow> [assistant_message (aiContent ex')]
                     | Threw t \<Rightarrow> if ?c = [] then [error_msg t] else [assistant_message ?c, error_msg t])
                    (sessions ?base),
                  loading := False\<rparr>)"
    by (rule finish_streaming [OF i])
  finally show ?thesis by simp
qed

text \<open>The accumulated text does not depend on the store.\<close>

lemma onChunk_aiContent:
  "aiContent (fst (onChunk interval now chunk (ex, st))) = aiContent ex @ chunk"
  by (simp add: onChunk_def Let_def)

lemma deliver_aiContent:
  "aiContent (fst (deliver interval clock k chunks (ex, st))) = aiContent ex @ concat chunks"
proof (induction chunks arbitrary: ex st k)
  case Nil
  show ?case by simp
next
  case (Cons chunk rest)
  obtain ex1 st1 where s: "onChunk interval (clock k) chunk (ex, st) = (ex1, st1)"
    by (cases "onChunk interval (clock k) chunk (ex, st)")
  have "aiContent ex1 = aiContent ex @ chunk"
    using onChunk_aiContent [of interval "clock k" chunk ex st] s by simp
  then show ?case using Cons.IH [of "Suc k" ex1 st1] s by simp
qed

section \<open>The claims about the exchange\<close>

text \<open>
  C2. For every throttle interval and every reading of the clock, when \<open>streamChat\<close>
  has returned the reply in the store holds the whole text of all deltas, whether or not
  the last delta was published when it arrived; when it has thrown, the last message of
  the session is the error message. Whatever the store, the text that the callback has
  accumulated, which the final update merges, is the text of all deltas.
\<close>

theorem final_flush:
  assumes "send_begin rendered text atts = Some ex"
    and "streamChat parse env_key service (messagesToSend rendered ex) (apiConfig rendered)
         = (deltas, r)"
  shows "(r = Returned \<longrightarrow>
            send_message interval parse coerce env_key service clock rendered text atts (Some st)
            = Some (st\<lparr>sessions := with_reply ex
                         [assistant_message (concat (map (chunk_text coerce) deltas))]
                         (append_user ex text (sessions st)),
                       loading := False\<rparr>))
         \<and> (r = Threw t \<longrightarrow>
              (\<exists>partial.
                 send_message interval parse coerce env_key service clock rendered text atts (Some st)
                 = Some (st\<lparr>sessions := with_reply ex (partial @ [error_msg t])
                              (append_user ex text (sessions st)),
                            loading := False\<rparr>)))
         \<and> aiContent (fst (deliver interval clock k chunks (ex0, st0)))
           = aiContent ex0 @ concat chunks"
proof -
  obtain c n where run:
    "send_message interval parse coerce env_key service clock rendered text atts (Some st)
     = Some (st\<lparr>sessions := with_reply ex
                (case r of
                   Returned \<Rightarrow> [assistant_message (concat (map (chunk_text coerce) deltas))]
                 | Threw t \<Rightarrow> if c = [] then [error_msg t] else [assistant_message c, error_msg t])
                (append_user ex text (sessions st)),
              loading := False\<rparr>)"
    using send_message_run [OF assms] by blast
  have a: "send_message interval parse coerce env_key service clock rendered text atts (Some st)
            = Some (st\<lparr>sessions := with_reply ex
                         [assistant_message (concat (map (chunk_text coerce) deltas))]
                         (append_user ex text (sessions st)),
                       loading := False\<rparr>)"
    if "r = Returned"
    using run that by simp
  have b: "\<exists>partial.
             send_message interval parse coerce env_key service clock rendered text atts (Some st)
             = Some (st\<lparr>sessions := with_reply ex (partial @ [error_msg t])
                          (append_user ex text (sessions st)),
                        loading := False\<rparr>)"
    if r: "r = Threw t"
  proof -
    have "send_message interval parse coerce env_key service clock rendered text atts (Some st)
       = Some (st\<lparr>sessions := with_reply ex
                    ((if c = [] then [] else [assistant_message c]) @ [error_msg t])
                    (append_user ex text (sessions st)), loading := False\<rparr>)"
      using run r by simp
    then show ?thesis by blast
  qed
  show ?thesis
    using a b deliver_aiContent [of interval clock k chunks ex0 st0] by blast
qed

theorem final_flush_witness:
  "send_begin sample_state ''Hi'' [] = Some (sample_exchange ''Hi'')
   \<and> streamChat sample_parse None (sample_service chunks_a EndOfStream)
        (messagesToSend sample_state (sample_exchange ''Hi'')) (apiConfig sample_state)
       = ([JStr ''Hel'', JStr ''lo''], Returned)
   \<and> streamChat sample_parse None (sample_service chunks_a (ReadFails lost))
        (messagesToSend sample_state (sample_exchange ''Hi'')) (apiConfig sample_state)
       = ([JStr ''Hel'', JStr ''lo''], Threw lost)
   \<and> transcript (snd (deliver 100 same_instant 0 [''Hel'', ''lo'']
          (sample_exchange ''Hi'', start_exchange (sample_exchange ''Hi'') ''Hi'' (Some sample_state))))
       = Some [[user_message ''Hi'', assistant_message ''Hel''], messages other_session]
   \<and> transcript (send_message 100 sample_parse no_coercion None (sample_service chunks_a EndOfStream)
          same_instant sample_state ''Hi'' [] (Some sample_state))
       = Some [[user_message ''Hi'', assistant_message ''Hello''], messages other_session]
   \<and> transcript (send_message 100 sample_parse no_coercion None
          (sample_service chunks_a (ReadFails lost)) same_instant sample_state ''Hi'' [] (Some sample_state))
       = Some [[user_message ''Hi'', assistant_message ''Hel'',
                assistant_message ''Error: connection lost''], messages other_session]"
proof -
  have b: "send_begin sample_state ''Hi'' [] = Some (sample_exchange ''Hi'')"
    by code_simp
  have s1: "streamChat sample_parse None (sample_service chunks_a EndOfStream)
        (messagesToSend sample_state (sample_exchange ''Hi'')) (apiConfig sample_state)
       = ([JStr ''Hel'', JStr ''lo''], Returned)"
    by code_simp
  have s2: "streamChat sample_parse None (sample_service chunks_a (ReadFails lost))
        (messagesToSend sample_state (sample_exchange ''Hi'')) (apiConfig sample_state)
       = ([JStr ''Hel'', JStr ''lo''], Threw lost)"
    by code_simp
  have d: "transcript (snd (deliver 100 same_instant 0 [''Hel'', ''lo'']
          (sample_exchange ''Hi'', start_exchange (sample_exchange ''Hi'') ''Hi'' (Some sample_state))))
       = Some [[user_message ''Hi'', assistant_message ''Hel''], messages other_session]"
    by code_simp
  have e2: "transcript (send_message 100 sample_parse no_coercion None
          (sample_service chunks_a (ReadFails lost)) same_instant sample_state ''Hi'' [] (Some sample_state))
       = Some [[user_message ''Hi'', assistant_message ''Hel'',
                assistant_message ''Error: connection lost''], messages other_session]"
    by code_simp
  have e1: "send_message 100 sample_parse no_coercion None (sample_service chunks_a EndOfStream)
          same_instant sample_state ''Hi'' [] (Some sample_state)
        = Some (sample_state\<lparr>sessions := with_reply (sample_exchange ''Hi'')
                   [assistant_message (concat (map (chunk_text no_coercion) [JStr ''Hel'', JStr ''lo'']))]
                   (append_user (sample_exchange ''Hi'') ''Hi'' (sessions sample_state)),
                 loading := False\<rparr>)"
    using final_flush [OF b s1, of 100 no_coercion same_instant sample_state] by simp
  have e1': "transcript (Some (sample_state\<lparr>sessions := with_reply (sample_exchange ''Hi'')
                   [assistant_message (concat (map (chunk_text no_coercion) [JStr ''Hel'', JStr ''lo'']))]
                   (append_user (sample_exchange ''Hi'') ''Hi'' (sessions sample_state)),
                 loading := False\<rparr>))
        = Some [[user_message ''Hi'', assistant_message ''Hello''], messages other_session]"
    by code_simp
  show ?thesis
    unfolding e1 e1' using b s1 s2 d e2 by simp
qed

text \<open>
  C8, as stated, fails: when the stream breaks after a delta has been published, the
  placeholder keeps the partial text and the error message is pushed after it as a
  message of its own.
\<close>

theorem error_finalization_counterexample:
  "transcript (handleSendMessage sample_parse no_coercion None
      (sample_service [hel_line @ [newline]] (ReadFails lost)) same_instant sample_state ''Hi'' []
      (Some sample_state))
   = Some [[user_message ''Hi'', assistant_message ''Hel'',
            assistant_message ''Error: connection lost''], messages other_session]"
  by code_simp

lemma error_msg_prefix: "startsWith ''Error: '' (content (error_msg t)) \<and> role (error_msg t) = Assistant"
  by (cases t) (simp add: error_msg_def)

lemma streamChat_no_key:
  "apiKey config = [] \<Longrightarrow> env_key = None \<or> env_key = Some [] \<Longrightarrow>
   streamChat parse env_key service msgs config = ([], Threw (Thrown (Some key_required)))"
  by (auto simp: streamChat_def)

text \<open>
  C8, amended. When \<open>streamChat\<close> throws, the session of the request ends with an
  assistant message whose content begins with \<open>Error: \<close>: it replaces the placeholder when
  the placeholder is still empty, and is pushed after the placeholder when the store
  shows a snapshot of the deltas, which the placeholder keeps; no empty placeholder
  remains. Without an API key this happens whatever the service would have answered, and
  the error message replaces the placeholder.
\<close>

theorem error_finalization:
  assumes "send_begin rendered text atts = Some ex"
  shows "(streamChat parse env_key service (messagesToSend rendered ex) (apiConfig rendered)
            = (deltas, Threw t) \<longrightarrow>
          send_message interval parse coerce env_key service clock rendered text atts (Some st)
          = Some (st\<lparr>sessions := with_reply ex
                     (if snapshot_shown interval clock 0 (map (chunk_text coerce) deltas) ex [] = []
                      then [error_msg t]
                      else [assistant_message
                              (snapshot_shown interval clock 0 (map (chunk_text coerce) deltas) ex []),
                            error_msg t])
                     (append_user ex text (sessions st)),
                   loading := False\<rparr>))
         \<and> finish ex (Threw t) (Some (streaming ex base c))
           = Some (base\<lparr>sessions := with_reply ex
                       (if c = [] then [error_msg t] else [assistant_message c, error_msg t])
                       (sessions base),
                     loading := False\<rparr>)
         \<and> startsWith ''Error: '' (content (error_msg t))
         \<and> role (error_msg t) = Assistant
         \<and> (apiKey (apiConfig rendered) = [] \<and> (env_key = None \<or> env_key = Some []) \<longrightarrow>
              send_message interval parse coerce env_key service clock rendered text atts (Some st)
              = Some (st\<lparr>sessions := with_reply ex [error_msg (Thrown (Some key_required))]
                           (append_user ex text (sessions st)),
                         loading := False\<rparr>))"
proof -
  have a: "send_message interval parse coerce env_key service clock rendered text atts (Some st)
          = Some (st\<lparr>sessions := with_reply ex
                     (if snapshot_shown interval clock 0 (map (chunk_text coerce) deltas) ex [] = []
                      then [error_msg t]
                      else [assistant_message
                              (snapshot_shown interval clock 0 (map (chunk_text coerce) deltas) ex []),
                            error_msg t])
                     (append_user ex text (sessions st)),
                   loading := False\<rparr>)"
    if s: "streamChat parse env_key service (messagesToSend rendered ex) (apiConfig rendered)
            = (deltas, Threw t)"
    by (rule send_message_threw [OF assms s])
  have f: "finish ex (Threw t) (Some (streaming ex base c))
           = Some (base\<lparr>sessions := with_reply ex
                       (if c = [] then [error_msg t] else [assistant_message c, error_msg t])
                       (sessions base),
                     loading := False\<rparr>)"
    using finish_streaming [of ex ex "Threw t" base c] by simp
  have b: "send_message interval parse coerce env_key service clock rendered text atts (Some st)
              = Some (st\<lparr>sessions := with_reply ex [error_msg (Thrown (Some key_required))]
                           (append_user ex text (sessions st)),
                         loading := False\<rparr>)"
    if k: "apiKey (apiConfig rendered) = []" "env_key = None \<or> env_key = Some []"
  proof -
    have s: "streamChat parse env_key service (messagesToSend rendered ex) (apiConfig rendered)
             = ([], Threw (Thrown (Some key_required)))"
      by (rule streamChat_no_key [OF k])
    show ?thesis
      using send_message_threw [OF assms s, of interval coerce clock st] by simp
  qed
  show ?thesis using a b f error_msg_prefix [of t] by blast
qed

theorem error_finalization_witness:
  "send_begin no_key_state ''Hi'' [] = Some (sample_exchange ''Hi'')
   \<and> apiKey (apiConfig no_key_state) = []
   \<and> streamChat sample_parse None (sample_service [hel_line @ [newline]] (ReadFails lost))
        (messagesToSend sample_state (sample_exchange ''Hi'')) (apiConfig sample_state)
       = ([JStr ''Hel''], Threw lost)
   \<and> snapshot_shown 100 same_instant 0 (map (chunk_text no_coercion) [JStr ''Hel''])
        (sample_exchange ''Hi'') [] = ''Hel''
   \<and> transcript (send_message 100 sample_parse no_coercion None
        (sample_service [hel_line @ [newline]] (ReadFails lost)) same_instant sample_state ''Hi'' []
        (Some sample_state))
       = Some [[user_message ''Hi'', assistant_message ''Hel'',
                assistant_message ''Error: connection lost''], messages other_session]
   \<and> streamChat sample_parse None (sample_service [] (ReadFails lost))
        (messagesToSend sample_state (sample_exchange ''Hi'')) (apiConfig sample_state)
       = ([], Threw lost)
   \<and> transcript (send_message 100 sample_parse no_coercion None
        (sample_service [] (ReadFails lost)) same_instant sample_state ''Hi'' [] (Some sample_state))
       = Some [[user_message ''Hi'', assistant_message ''Error: connection lost''],
               messages other_session]
   \<and> transcript (send_message 100 sample_parse no_coercion None
        (sample_service chunks_a EndOfStream) same_instant no_key_state ''Hi'' [] (Some no_key_state))
       = Some [[user_message ''Hi'',
                assistant_message ''Error: API key is required. Please set it in Settings.''],
               messages other_session]"
proof -
  have b0: "send_begin no_key_state ''Hi'' [] = Some (sample_exchange ''Hi'')" by code_simp
  have b1: "send_begin sample_state ''Hi'' [] = Some (sample_exchange ''Hi'')" by code_simp
  have k: "apiKey (apiConfig no_key_state) = []" by code_simp
  have s1: "streamChat sample_parse None (sample_service [hel_line @ [newline]] (ReadFails lost))
        (messagesToSend sample_state (sample_exchange ''Hi'')) (apiConfig sample_state)
       = ([JStr ''Hel''], Threw lost)"
    by code_simp
  have s2: "streamChat sample_parse None (sample_service [] (ReadFails lost))
        (messagesToSend sample_state (sample_exchange ''Hi'')) (apiConfig sample_state)
       = ([], Threw lost)"
    by code_simp
  have c1: "snapshot_shown 100 same_instant 0 (map (chunk_text no_coercion) [JStr ''Hel''])
        (sample_exchange ''Hi'') [] = ''Hel''"
    by code_simp
  have c2: "snapshot_shown 100 same_instant 0 (map (chunk_text no_coercion) [])
        (sample_exchange ''Hi'') [] = []"
    by code_simp
  note t0 = error_finalization [OF b0, of sample_parse None "sample_service chunks_a EndOfStream"
              "[]" lost 100 no_coercion same_instant no_key_state]
  note t1 = error_finalization [OF b1, of sample_parse None
              "sample_service [hel_line @ [newline]] (ReadFails lost)"
              "[JStr ''Hel'']" lost 100 no_coercion same_instant sample_state]
  note t2 = error_finalization [OF b1, of sample_parse None
              "sample_service [] (ReadFails lost)"
              "[]" lost 100 no_coercion same_instant sample_state]
  from t0 k have e0: "send_message 100 sample_parse no_coercion None
        (sample_service chunks_a EndOfStream) same_instant no_key_state ''Hi'' [] (Some no_key_state)
      = Some (no_key_state\<lparr>sessions := with_reply (sample_exchange ''Hi'')
                 [error_msg (Thrown (Some key_required))]
                 (append_user (sample_exchange ''Hi'') ''Hi'' (sessions no_key_state)),
               loading := False\<rparr>)"
    by blast
  have e0': "transcript (Some (no_key_state\<lparr>sessions := with_reply (sample_exchange ''Hi'')
                 [error_msg (Thrown (Some key_required))]
                 (append_user (sample_exchange ''Hi'') ''Hi'' (sessions no_key_state)),
               loading := False\<rparr>))
       = Some [[user_message ''Hi'',
                assistant_message ''Error: API key is required. Please set it in Settings.''],
               messages other_session]"
    by code_simp
  from t1 s1 have e1: "send_message 100 sample_parse no_coercion None
        (sample_service [hel_line @ [newline]] (ReadFails lost)) same_instant sample_state ''Hi'' []
        (Some sample_state)
      = Some (sample_state\<lparr>sessions := with_reply (sample_exchange ''Hi'')
                 (if snapshot_shown 100 same_instant 0 (map (chunk_text no_coercion) [JStr ''Hel''])
                       (sample_exchange ''Hi'') [] = []
                  then [error_msg lost]
                  else [assistant_message
                          (snapshot_shown 100 same_instant 0 (map (chunk_text no_coercion) [JStr ''Hel''])
                             (sample_exchange ''Hi'') []),
                        error_msg lost])
                 (append_user (sample_exchange ''Hi'') ''Hi'' (sessions sample_state)),
               loading := False\<rparr>)"
    by blast
  have e1': "transcript (Some (sample_state\<lparr>sessions := with_reply (sample_exchange ''Hi'')
                 (if ''Hel'' = [] then [error_msg lost] else [assistant_message ''Hel'', error_msg lost])
                 (append_user (sample_exchange ''Hi'') ''Hi'' (sessions sample_state)),
               loading := False\<rparr>))
       = Some [[user_message ''Hi'', assistant_message ''Hel'',
                assistant_message ''Error: connection lost''], messages other_session]"
    by code_simp
  from t2 s2 have e2: "send_message 100 sample_parse no_coercion None
        (sample_service [] (ReadFails lost)) same_instant sample_state ''Hi'' [] (Some sample_state)
      = Some (sample_state\<lparr>sessions := with_reply (sample_exchange ''Hi'')
                 (if snapshot_shown 100 same_instant 0 (map (chunk_text no_coercion) [])
                       (sample_exchange ''Hi'') [] = []
                  then [error_msg lost]
                  else [assistant_message
                          (snapshot_shown 100 same_instant 0 (map (chunk_text no_coercion) [])
                             (sample_exchange ''Hi'') []),
                        error_msg lost])
                 (append_user (sample_exchange ''Hi'') ''Hi'' (sessions sample_state)),
               loading := False\<rparr>)"
    by blast
  have e2': "transcript (Some (sample_state\<lparr>sessions := with_reply (sample_exchange ''Hi'')
                 (if ([]::string) = [] then [error_msg lost] else [assistant_message [], error_msg lost])
                 (append_user (sample_exchange ''Hi'') ''Hi'' (sessions sample_state)),
               loading := False\<rparr>))
       = Some [[user_message ''Hi'', assistant_message ''Error: connection lost''],
               messages other_session]"
    by code_simp
  show ?thesis
    unfolding e0 e0' e1 e2 c1 c2 e1' e2' using b0 k s1 s2 by simp
qed

text \<open>
  C7, as stated, fails: the title is cut from the text as submitted, not from the trimmed
  text, and a text of blanks only (sent with an attachment) is kept as the title instead
  of the default.
\<close>

theorem title_derivation_counterexample:
  "titles (handleSendMessage sample_parse no_coercion None (sample_service chunks_a EndOfStream)
      same_instant sample_state ''  hi'' [] (Some sample_state))
   = Some [''  hi'', ''Older'']
   \<and> take 30 (trim ''  hi'') = ''hi''
   \<and> titles (handleSendMessage sample_parse no_coercion None (sample_service chunks_a EndOfStream)
      same_instant sample_state ''   '' [memo] (Some sample_state))
   = Some [''   '', ''Older'']
   \<and> trim ''   '' = []"
  by code_simp

lemma title_with_reply: "map title (with_reply ex r ss) = map title ss"
  by (induction ss) (auto simp: with_reply_def)

lemma title_append_user:
  "map title (append_user ex text prev)
   = map (\<lambda>s. if session_id s = sessionIdForRequest ex \<and> messages s = []
              then (if take 30 text = [] then new_chat_title else take 30 text)
              else title s) prev"
  by (induction prev) (auto simp: append_user_def)

text \<open>
  C7, amended. When the user message is appended, a session of the request that has no
  message yet gets as title the first 30 characters of the text as submitted, or
  \<open>New Chat\<close> when the text is empty, and a session that has messages keeps its title;
  after the whole exchange, whatever the stream delivered, the titles are still those.
\<close>

theorem title_derivation:
  assumes "send_begin rendered text atts = Some ex"
  shows "map title (append_user ex text prev)
         = map (\<lambda>s. if session_id s = sessionIdForRequest ex \<and> messages s = []
                    then (if take 30 text = [] then new_chat_title else take 30 text)
                    else title s) prev
         \<and> titles (send_message interval parse coerce env_key service clock rendered text atts (Some st))
           = Some (map title (append_user ex text (sessions st)))"
proof -
  obtain deltas r where
    s: "streamChat parse env_key service (messagesToSend rendered ex) (apiConfig rendered) = (deltas, r)"
    by (cases "streamChat parse env_key service (messagesToSend rendered ex) (apiConfig rendered)")
  obtain reply where
    "send_message interval parse coerce env_key service clock rendered text atts (Some st)
     = Some (st\<lparr>sessions := with_reply ex reply (append_user ex text (sessions st)),
                loading := False\<rparr>)"
    using send_message_run [OF assms s, of coerce interval clock st] by blast
  then have "titles (send_message interval parse coerce env_key service clock rendered text atts (Some st))
           = Some (map title (append_user ex text (sessions st)))"
    by (simp add: titles_def title_with_reply)
  then show ?thesis using title_append_user by blast
qed

theorem title_derivation_witness:
  "send_begin sample_state (replicate 40 CHR ''a'') [] = Some (sample_exchange (replicate 40 CHR ''a''))
   \<and> titles (send_message 100 sample_parse no_coercion None (sample_service chunks_a EndOfStream)
        same_instant sample_state (replicate 40 CHR ''a'') [] (Some sample_state))
     = Some [replicate 30 CHR ''a'', ''Older'']
   \<and> map title (append_user (sample_exchange (replicate 40 CHR ''a'')) (replicate 40 CHR ''a'')
        (sessions sample_state))
     = [replicate 30 CHR ''a'', ''Older'']"
proof -
  have b: "send_begin sample_state (replicate 40 CHR ''a'') []
           = Some (sample_exchange (replicate 40 CHR ''a''))"
    by code_simp
  have v: "map title (append_user (sample_exchange (replicate 40 CHR ''a'')) (replicate 40 CHR ''a'')
        (sessions sample_state))
     = [replicate 30 CHR ''a'', ''Older'']"
    by code_simp
  note t = title_derivation [OF b, of "sessions sample_state" 100 sample_parse no_coercion None
             "sample_service chunks_a EndOfStream" same_instant sample_state]
  from t have e: "titles (send_message 100 sample_parse no_coercion None
        (sample_service chunks_a EndOfStream) same_instant sample_state (replicate 40 CHR ''a'') []
        (Some sample_state))
     = Some (map title (append_user (sample_exchange (replicate 40 CHR ''a''))
          (replicate 40 CHR ''a'') (sessions sample_state)))"
    by blast
  show ?thesis unfolding e v using b by simp
qed

text \<open>
  C6, as stated, fails: a delta that arrives exactly 100 ms after the last publication is
  not published.
\<close>

theorem throttle_step_counterexample:
  "(1100 :: int) - lastUpdate streaming_exchange \<ge> 100
   \<and> onChunk 100 1100 ''lo'' (streaming_exchange, Some streaming_state)
       = (streaming_exchange\<lparr>aiContent := ''Hello''\<rparr>, Some streaming_state)
   \<and> transcript (snd (onChunk 100 1100 ''lo'' (streaming_exchange, Some streaming_state)))
       = Some [[user_message ''Hi'', assistant_message ''Hel''], messages other_session]
   \<and> transcript (snd (onChunk 100 1101 ''lo'' (streaming_exchange, Some streaming_state)))
       = Some [[user_message ''Hi'', assistant_message ''Hello''], messages other_session]"
  by code_simp

text \<open>
  C6, amended. On each delta the callback appends it to the accumulated text and publishes
  the snapshot exactly when \<open>now - lastUpdate > 100\<close>, setting \<open>lastUpdate\<close> to \<open>now\<close>;
  otherwise it leaves the store and \<open>lastUpdate\<close> as they are.
\<close>

theorem throttle_step:
  "onChunk 100 now chunk (ex, st)
   = (if now - lastUpdate ex > 100
      then (ex\<lparr>aiContent := aiContent ex @ chunk, lastUpdate := now\<rparr>,
            setSessions (merge_content (sessionIdForRequest ex) (aiContent ex @ chunk)) st)
      else (ex\<lparr>aiContent := aiContent ex @ chunk\<rparr>, st))
   \<and> (now - lastUpdate ex > 100 \<longrightarrow>
        onChunk 100 now chunk (ex, Some (streaming ex base c))
        = (ex\<lparr>aiContent := aiContent ex @ chunk, lastUpdate := now\<rparr>,
           Some (streaming ex base (aiContent ex @ chunk))))
   \<and> (now - lastUpdate ex \<le> 100 \<longrightarrow>
        onChunk 100 now chunk (ex, Some (streaming ex base c))
        = (ex\<lparr>aiContent := aiContent ex @ chunk\<rparr>, Some (streaming ex base c)))"
  using setSessions_merge_streaming [of ex "aiContent ex @ chunk" base c]
  by (simp add: onChunk_def Let_def)

theorem throttle_step_witness:
  "(1101 :: int) - lastUpdate streaming_exchange > 100
   \<and> (1100 :: int) - lastUpdate streaming_exchange \<le> 100
   \<and> onChunk 100 1101 ''lo'' (streaming_exchange, Some streaming_state)
       = (streaming_exchange\<lparr>aiContent := ''Hello'', lastUpdate := 1101\<rparr>,
          Some (streaming (sample_exchange ''Hi'') sample_state ''Hello''))
   \<and> onChunk 100 1100 ''lo'' (streaming_exchange, Some streaming_state)
       = (streaming_exchange\<lparr>aiContent := ''Hello''\<rparr>, Some streaming_state)"
proof -
  have h1: "(1101 :: int) - lastUpdate streaming_exchange > 100" by code_simp
  have h2: "(1100 :: int) - lastUpdate streaming_exchange \<le> 100" by code_simp
  have a: "aiContent streaming_exchange @ ''lo'' = ''Hello''" by code_simp
  have s: "streaming_state = streaming streaming_exchange sample_state ''Hel''"
    by (simp add: streaming_state_def streaming_exchange_def streaming_def with_reply_def)
  have s': "streaming streaming_exchange sample_state ''Hello''
            = streaming (sample_exchange ''Hi'') sample_state ''Hello''"
    by (simp add: streaming_exchange_def streaming_def with_reply_def)
  note t1 = throttle_step [of 1101 "''lo''" streaming_exchange "Some streaming_state" sample_state "''Hel''"]
  note t2 = throttle_step [of 1100 "''lo''" streaming_exchange "Some streaming_state" sample_state "''Hel''"]
  from t1 h1 have e1: "onChunk 100 1101 ''lo'' (streaming_exchange, Some streaming_state)
       = (streaming_exchange\<lparr>aiContent := ''Hello'', lastUpdate := 1101\<rparr>,
          Some (streaming (sample_exchange ''Hi'') sample_state ''Hello''))"
    unfolding s a s' by blast
  from t2 h2 have e2: "onChunk 100 1100 ''lo'' (streaming_exchange, Some streaming_state)
       = (streaming_exchange\<lparr>aiContent := ''Hello''\<rparr>, Some streaming_state)"
    unfolding s a by blast
  show ?thesis using h1 h2 e1 e2 by blast
qed






section \<open>The claim about persistence\<close>

lemma not_image_iff: "att_type a \<noteq> Image \<longleftrightarrow> att_type a = File"
  by (cases "att_type a") auto

text \<open>
  C9. Filtering the sessions for storage twice gives what filtering once gives; the
  result holds no image attachment, and the document attachments of every message are
  those it had, in order.
\<close>

theorem storage_filter:
  "getSessionsForStorage (getSessionsForStorage ss) = getSessionsForStorage ss
   \<and> filter (\<lambda>a. att_type a = Image) (all_attachments (getSessionsForStorage ss)) = []
   \<and> file_attachments (getSessionsForStorage ss) = file_attachments ss"
proof -
  have a: "getSessionsForStorage (getSessionsForStorage ss) = getSessionsForStorage ss"
    by (simp add: getSessionsForStorage_def option.map_comp comp_def)
  have b: "filter (\<lambda>a. att_type a = Image) (all_attachments (getSessionsForStorage ss)) = []"
    by (auto simp: getSessionsForStorage_def all_attachments_def filter_empty_conv
             split: option.splits)
  have c: "file_attachments (getSessionsForStorage ss) = file_attachments ss"
    by (simp add: getSessionsForStorage_def file_attachments_def option.map_comp comp_def
          not_image_iff cong: conj_cong)
  show ?thesis using a b c by simp
qed

theorem storage_filter_witness:
  "getSessionsForStorage illustrated
   = [sample_session\<lparr>messages :=
        [\<lparr>role = User, content = ''look'', attachments = Some [memo]\<rparr>,
         assistant_message ''nice'']\<rparr>]
   \<and> getSessionsForStorage (getSessionsForStorage illustrated) = getSessionsForStorage illustrated
   \<and> file_attachments (getSessionsForStorage illustrated) = [[Some [memo], None]]
   \<and> all_attachments illustrated = [photo, memo]"
proof -
  have a: "getSessionsForStorage illustrated
   = [sample_session\<lparr>messages :=
        [\<lparr>role = User, content = ''look'', attachments = Some [memo]\<rparr>,
         assistant_message ''nice'']\<rparr>]"
    by code_simp
  have b: "file_attachments illustrated = [[Some [memo], None]]" by code_simp
  have c: "all_attachments illustrated = [photo, memo]" by code_simp
  note t = storage_filter [of illustrated]
  from t have i: "getSessionsForStorage (getSessionsForStorage illustrated)
                  = getSessionsForStorage illustrated" by blast
  from t have f: "file_attachments (getSessionsForStorage illustrated) = file_attachments illustrated"
    by blast
  show ?thesis using a b c i f by simp
qed

end
